theory Spec2Isabelle
  imports Complex_Main "HOL-Library.Multiset"
begin

section \<open>Node classification with a graph convolutional network (GCN.py)\<close>

text \<open>
  The script is a linear notebook: it carves a subgraph out of a product graph, splits
  the nodes, defines the class \<open>GCN\<close> and runs a training loop. Every numerical step is
  a call into torch, torch\_geometric or ogb. The script's own lines are translated one
  by one; each library call they make is a separate definition, named after the call,
  that follows the library's behaviour on the arguments the script passes. Tensor
  entries, losses and accuracies are real numbers standing for the floats of the
  program: the properties below are about shapes, index sets, the order of the
  operations and the flow of the state, which do not depend on how an entry is rounded.
  The float products of the split are the exception and are modelled bit for bit.
\<close>

subsection \<open>Errors raised by the interpreter and the libraries\<close>

datatype error =
  RuntimeError | ValueError | IndexError | KeyError | NameError | ZeroDivisionError | OverflowError

subsection \<open>Tensors and the graph object\<close>

text \<open>
  A two-dimensional float tensor carries its shape, so that a tensor without rows still
  has a column count. Integer tensors of one dimension (labels, node positions) are
  lists of naturals; the \<open>2 \<times> E\<close> tensor \<open>edge_index\<close> is the list of its \<open>E\<close> columns.
\<close>

record tensor =
  nrows :: nat
  ncols :: nat
  entries :: "real list list"

definition wf_tensor :: "tensor \<Rightarrow> bool" where
  "wf_tensor t = (length (entries t) = nrows t \<and> list_all (\<lambda>r. length r = ncols t) (entries t))"

definition torch_arange :: "nat \<Rightarrow> nat list" where
  "torch_arange n = [0 ..< n]"

text \<open>\<open>value[index]\<close> along dimension 0, for an index tensor: out of range raises.\<close>

definition select_rows :: "tensor \<Rightarrow> nat list \<Rightarrow> error + tensor" where
  "select_rows t index =
     (if list_all (\<lambda>i. i < nrows t) index
      then Inr \<lparr> nrows = length index, ncols = ncols t,
                 entries = map (\<lambda>i. entries t ! i) index \<rparr>
      else Inl IndexError)"

definition select_items :: "'a list \<Rightarrow> nat list \<Rightarrow> error + 'a list" where
  "select_items xs index =
     (if list_all (\<lambda>i. i < length xs) index
      then Inr (map (\<lambda>i. xs ! i) index)
      else Inl IndexError)"

text \<open>
  The sparse adjacency in coordinate form, as its storage keeps it: the row and the
  column of every stored entry, and the two sizes.
\<close>

record sparse_tensor =
  sp_row :: "nat list"
  sp_col :: "nat list"
  sp_sizes :: "nat \<times> nat"

text \<open>
  \<open>SparseTensor(row, col, sparse_sizes=None, is_sorted=True, trust_data=True)\<close>: nothing is
  checked or sorted, and each size is inferred as the largest index plus one (zero when
  there is no entry).
\<close>

definition SparseTensor :: "nat list \<Rightarrow> nat list \<Rightarrow> sparse_tensor" where
  "SparseTensor r c =
     \<lparr> sp_row = r, sp_col = c,
       sp_sizes = (if r = [] then 0 else Max (set r) + 1, if c = [] then 0 else Max (set c) + 1) \<rparr>"

record data_t =
  data_x :: tensor
  data_y :: "nat list"
  data_adj_t :: sparse_tensor
  data_edge_index :: "(nat \<times> nat) list option"
  data_num_nodes :: nat

text \<open>
  The invariant of a graph object as the dataset delivers it: \<open>N\<close> feature rows, \<open>N\<close>
  labels, and adjacency entries that name node positions below \<open>N\<close>.
\<close>

definition wf_data :: "data_t \<Rightarrow> bool" where
  "wf_data d =
     (wf_tensor (data_x d) \<and> nrows (data_x d) = data_num_nodes d \<and>
      length (data_y d) = data_num_nodes d \<and>
      length (sp_row (data_adj_t d)) = length (sp_col (data_adj_t d)) \<and>
      list_all (\<lambda>u. u < data_num_nodes d) (sp_row (data_adj_t d)) \<and>
      list_all (\<lambda>v. v < data_num_nodes d) (sp_col (data_adj_t d)))"

subsection \<open>Library calls of the subgraph extraction\<close>

text \<open>\<open>torch.stack([row, col])\<close>: the two tensors must have the same size.\<close>

definition torch_stack :: "nat list \<Rightarrow> nat list \<Rightarrow> error + (nat \<times> nat) list" where
  "torch_stack r c = (if length r = length c then Inr (zip r c) else Inl RuntimeError)"

text \<open>\<open>index_to_mask(index, size)\<close>: \<open>mask[index] = True\<close> on a mask of \<open>size\<close> entries.\<close>

definition index_to_mask :: "nat list \<Rightarrow> nat \<Rightarrow> error + bool list" where
  "index_to_mask index n =
     (if list_all (\<lambda>i. i < n) index
      then Inr (map (\<lambda>i. i \<in> set index) [0 ..< n])
      else Inl IndexError)"

text \<open>
  The relabelling table: \<open>node_idx = zeros(num_nodes); node_idx[subset] = arange(len(subset))\<close>.
\<close>

definition node_idx :: "nat list \<Rightarrow> nat \<Rightarrow> nat list" where
  "node_idx nodes num_nodes =
     fold (\<lambda>(pos, i) tab. tab[i := pos]) (zip [0 ..< length nodes] nodes)
       (replicate num_nodes 0)"

text \<open>
  \<open>torch_geometric.utils.subgraph(subset, edge_index, relabel_nodes=True, num_nodes=n,
  return_edge_mask=True)\<close> for an index tensor \<open>subset\<close>: an edge stays when both of its
  endpoints are in the subset, and the endpoints that stay are renamed by their position
  in the subset.
\<close>

definition utils_subgraph ::
  "nat list \<Rightarrow> (nat \<times> nat) list \<Rightarrow> nat \<Rightarrow> error + ((nat \<times> nat) list \<times> bool list)" where
  "utils_subgraph nodes edge_index num_nodes =
     (case index_to_mask nodes num_nodes of
        Inl e \<Rightarrow> Inl e
      | Inr node_mask \<Rightarrow>
          if \<not> list_all (\<lambda>(u, v). u < num_nodes \<and> v < num_nodes) edge_index
          then Inl IndexError
          else
            let edge_mask = map (\<lambda>(u, v). node_mask ! u \<and> node_mask ! v) edge_index;
                kept = map fst (filter snd (zip edge_index edge_mask));
                tab = node_idx nodes num_nodes
            in Inr (map (\<lambda>(u, v). (tab ! u, tab ! v)) kept, edge_mask))"

text \<open>
  \<open>Data.subgraph(subset)\<close>: the edges are replaced by those of the induced subgraph,
  \<open>num_nodes\<close> becomes the size of the subset, and every attribute with one entry per node
  (here \<open>x\<close> and \<open>y\<close>) is indexed by the subset. \<open>adj_t\<close> is not a dense tensor and is copied
  as it is.
\<close>

definition Data_subgraph :: "nat list \<Rightarrow> data_t \<Rightarrow> error + data_t" where
  "Data_subgraph nodes d =
     (case (case data_edge_index d of
              None \<Rightarrow> Inr None
            | Some ei \<Rightarrow>
                (case utils_subgraph nodes ei (data_num_nodes d) of
                   Inl e \<Rightarrow> Inl e
                 | Inr (ei', edge_mask) \<Rightarrow> Inr (Some ei'))) of
        Inl e \<Rightarrow> Inl e
      | Inr new_edge_index \<Rightarrow>
          (case (if nrows (data_x d) = data_num_nodes d
                 then select_rows (data_x d) nodes else Inr (data_x d)) of
             Inl e \<Rightarrow> Inl e
           | Inr new_x \<Rightarrow>
               (case (if length (data_y d) = data_num_nodes d
                      then select_items (data_y d) nodes else Inr (data_y d)) of
                  Inl e \<Rightarrow> Inl e
                | Inr new_y \<Rightarrow>
                    Inr (d\<lparr> data_edge_index := new_edge_index, data_x := new_x,
                           data_y := new_y, data_num_nodes := length nodes \<rparr>))))"

subsection \<open>Subgraph extraction (lines 51 to 69)\<close>

definition sub_nodes :: nat where
  "sub_nodes = 100000"

text \<open>
  The lines of the script with the node budget as an argument; the script runs them
  with \<open>sub_nodes\<close>. Moving tensors to the device changes no value.
\<close>

definition sub_graph :: "nat \<Rightarrow> data_t \<Rightarrow> error + data_t" where
  "sub_graph k d =
     (case torch_stack (sp_row (data_adj_t d)) (sp_col (data_adj_t d)) of
        Inl e \<Rightarrow> Inl e
      | Inr ei \<Rightarrow>
          (case Data_subgraph (torch_arange k) (d\<lparr> data_edge_index := Some ei \<rparr>) of
             Inl e \<Rightarrow> Inl e
           | Inr g \<Rightarrow>
               (case data_edge_index g of
                  None \<Rightarrow> Inl RuntimeError
                | Some ei' \<Rightarrow>
                    Inr (g\<lparr> data_adj_t := SparseTensor (map fst ei') (map snd ei') \<rparr>))))"

text \<open>A graph of four nodes with two features each, for running the extraction by hand.\<close>

definition demo_data :: data_t where
  "demo_data = \<lparr> data_x = \<lparr> nrows = 4, ncols = 2, entries = [[1, 2], [3, 4], [5, 6], [7, 8]] \<rparr>,
       data_y = [0, 1, 0, 1],
       data_adj_t = \<lparr> sp_row = [0, 0, 1, 1, 2, 3], sp_col = [1, 3, 0, 2, 1, 0], sp_sizes = (4, 4) \<rparr>,
       data_edge_index = None, data_num_nodes = 4 \<rparr>"

subsection \<open>Library calls of the split\<close>

text \<open>
  A Python float is a double. The three literals are the doubles nearest to the decimal
  fractions, written here as a 53-bit numerator over a power of two. A product is the
  exact product rounded to 53 significant bits, ties to the even neighbour. The values
  that occur are far from the ends of the exponent range, except that an integer of
  1024 bits or more cannot be converted at all.
\<close>

type_synonym double = "nat \<times> nat"

definition double_value :: "double \<Rightarrow> real" where
  "double_value x = real (fst x) / 2 ^ snd x"

definition lit_0_8 :: double where
  "lit_0_8 = (7205759403792794, 53)"

definition lit_0_05 :: double where
  "lit_0_05 = (7205759403792794, 57)"

definition lit_0_15 :: double where
  "lit_0_15 = (5404319552844595, 55)"

fun bitlen :: "nat \<Rightarrow> nat" where
  "bitlen n = (if n = 0 then 0 else Suc (bitlen (n div 2)))"

declare bitlen.simps [simp del]

definition round53 :: "nat \<Rightarrow> nat" where
  "round53 n =
     (let s = bitlen n - 53; q = n div 2 ^ s; r = n mod 2 ^ s
      in if 2 * r > 2 ^ s \<or> (2 * r = 2 ^ s \<and> odd q) then (q + 1) * 2 ^ s else q * 2 ^ s)"

text \<open>The least integer that is too large to convert to a float.\<close>

definition float_int_limit :: nat where
  "float_int_limit = 2 ^ 1024 - 2 ^ 970"

text \<open>\<open>k * c\<close> for an integer \<open>k\<close> and a float \<open>c\<close> below one: \<open>k\<close> is converted first.\<close>

definition int_times_float :: "nat \<Rightarrow> double \<Rightarrow> error + double" where
  "int_times_float k c =
     (if k \<ge> float_int_limit then Inl OverflowError
      else Inr (round53 (round53 k * fst c), snd c))"

text \<open>\<open>int(x)\<close> for a float that is not negative: the fraction is cut off.\<close>

definition py_int :: "double \<Rightarrow> nat" where
  "py_int x = fst x div 2 ^ snd x"

text \<open>
  \<open>np.random.shuffle\<close> on a one-dimensional array: for \<open>i\<close> from the last position down
  to 1, swap position \<open>i\<close> with a position drawn from \<open>0 .. i\<close>. The draws of the
  unseeded generator are the argument \<open>rnd\<close>.
\<close>

definition np_random_shuffle :: "(nat \<Rightarrow> nat) \<Rightarrow> 'a list \<Rightarrow> 'a list" where
  "np_random_shuffle rnd xs =
     fold (\<lambda>i ys. let j = rnd i mod (i + 1) in ys[i := ys ! j, j := ys ! i])
       (rev [1 ..< length xs]) xs"

text \<open>
  \<open>torch.split(tensor, sizes, dim=0)\<close> with a list of sizes: consecutive chunks of those
  sizes. The sizes must add up to the size of the tensor, or the call raises.
\<close>

fun chunks :: "'a list \<Rightarrow> nat list \<Rightarrow> 'a list list" where
  "chunks xs [] = []"
| "chunks xs (n # ns) = take n xs # chunks (drop n xs) ns"

definition torch_split :: "'a list \<Rightarrow> nat list \<Rightarrow> error + 'a list list" where
  "torch_split xs sizes =
     (if sum_list sizes = length xs then Inr (chunks xs sizes) else Inl RuntimeError)"

subsection \<open>Train, validation and test split (lines 72 to 78)\<close>

definition split_sizes :: "nat \<Rightarrow> error + nat list" where
  "split_sizes k =
     (case int_times_float k lit_0_8 of Inl e \<Rightarrow> Inl e | Inr a \<Rightarrow>
      case int_times_float k lit_0_05 of Inl e \<Rightarrow> Inl e | Inr b \<Rightarrow>
      case int_times_float k lit_0_15 of Inl e \<Rightarrow> Inl e | Inr c \<Rightarrow>
        Inr [py_int a, py_int b, py_int c])"

text \<open>
  Lines 72 to 75 with the node count as an argument. The dictionary maps each of the
  three names to its chunk.
\<close>

definition split_idx :: "nat \<Rightarrow> (nat \<Rightarrow> nat) \<Rightarrow> error + (string \<rightharpoonup> nat list)" where
  "split_idx k rnd =
     (case split_sizes k of
        Inl e \<Rightarrow> Inl e
      | Inr sizes \<Rightarrow>
          let indices = np_random_shuffle rnd (torch_arange k)
          in (case torch_split indices sizes of
                Inl e \<Rightarrow> Inl e
              | Inr ts \<Rightarrow> Inr (map_of (zip [''train'', ''valid'', ''test''] ts))))"

text \<open>A generator whose every draw is 0, for running the split by hand.\<close>

definition zero_draws :: "nat \<Rightarrow> nat" where
  "zero_draws i = 0"

subsection \<open>Library layers of the model\<close>

text \<open>
  \<open>GCNConv(in_channels, out_channels)\<close> with its defaults: a weight of \<open>out_channels\<close>
  rows and \<open>in_channels\<close> columns and a bias of \<open>out_channels\<close> entries. The weight
  starts at random values, which the constructor takes as the function \<open>w\<close>; the bias
  starts at zero.
\<close>

record gcn_conv =
  conv_in :: nat
  conv_out :: nat
  conv_weight :: "real list list"
  conv_bias :: "real list"

definition GCNConv :: "nat \<Rightarrow> nat \<Rightarrow> (nat \<Rightarrow> nat \<Rightarrow> real) \<Rightarrow> gcn_conv" where
  "GCNConv n_in n_out w =
     \<lparr> conv_in = n_in, conv_out = n_out,
       conv_weight = map (\<lambda>r. map (\<lambda>c. w r c) [0 ..< n_in]) [0 ..< n_out],
       conv_bias = replicate n_out 0 \<rparr>"

definition wf_conv :: "gcn_conv \<Rightarrow> bool" where
  "wf_conv c =
     (length (conv_weight c) = conv_out c \<and>
      list_all (\<lambda>r. length r = conv_in c) (conv_weight c) \<and>
      length (conv_bias c) = conv_out c)"

text \<open>
  The normalisation of the adjacency (\<open>gcn_norm\<close> on a sparse tensor without values):
  every stored entry counts 1, the diagonal is replaced by one entry per node, and entry
  \<open>(u, v)\<close> is scaled by the inverse square roots of the row sums of \<open>u\<close> and \<open>v\<close>.
\<close>

definition filled_entries :: "sparse_tensor \<Rightarrow> (nat \<times> nat) list" where
  "filled_entries adj =
     filter (\<lambda>(u, v). u \<noteq> v) (zip (sp_row adj) (sp_col adj)) @
     map (\<lambda>i. (i, i)) [0 ..< fst (sp_sizes adj)]"

definition deg_inv_sqrt :: "sparse_tensor \<Rightarrow> nat \<Rightarrow> real" where
  "deg_inv_sqrt adj i =
     (let deg = real (length (filter (\<lambda>(u, v). u = i) (filled_entries adj)))
      in if deg = 0 then 0 else 1 / sqrt deg)"

text \<open>Entry \<open>(v, j)\<close> of \<open>x\<close> times the transposed weight.\<close>

definition lin_entry :: "gcn_conv \<Rightarrow> tensor \<Rightarrow> nat \<Rightarrow> nat \<Rightarrow> real" where
  "lin_entry c t v j = sum_list (map2 (*) (entries t ! v) (conv_weight c ! j))"

text \<open>
  \<open>GCNConv.forward(x, adj_t)\<close>. The normalisation needs a square adjacency, the linear
  map needs \<open>in_channels\<close> feature columns, and the product of the adjacency with the
  transformed features has one row per row of the adjacency; it reads the feature row of
  every column index, which the library does not check (here such a read raises).
\<close>

definition GCNConv_forward :: "gcn_conv \<Rightarrow> tensor \<Rightarrow> sparse_tensor \<Rightarrow> error + tensor" where
  "GCNConv_forward c t adj =
     (if fst (sp_sizes adj) \<noteq> snd (sp_sizes adj) then Inl ValueError
      else if ncols t \<noteq> conv_in c then Inl RuntimeError
      else if \<not> list_all (\<lambda>(u, v). v < nrows t) (filled_entries adj) then Inl IndexError
      else Inr \<lparr> nrows = fst (sp_sizes adj), ncols = conv_out c,
                 entries =
                   map (\<lambda>i. map (\<lambda>j.
                          sum_list (map (\<lambda>(u, v). deg_inv_sqrt adj u * deg_inv_sqrt adj v *
                                                  lin_entry c t v j)
                                     (filter (\<lambda>(u, v). u = i) (filled_entries adj)))
                          + conv_bias c ! j)
                        [0 ..< conv_out c])
                     [0 ..< fst (sp_sizes adj)] \<rparr>)"

text \<open>\<open>BatchNorm1d(num_features)\<close> with its defaults (\<open>eps = 1e-5\<close>, \<open>momentum = 0.1\<close>).\<close>

record batch_norm =
  bn_features :: nat
  bn_weight :: "real list"
  bn_bias :: "real list"
  running_mean :: "real list"
  running_var :: "real list"
  num_batches_tracked :: nat

definition BatchNorm1d :: "nat \<Rightarrow> batch_norm" where
  "BatchNorm1d h =
     \<lparr> bn_features = h, bn_weight = replicate h 1, bn_bias = replicate h 0,
       running_mean = replicate h 0, running_var = replicate h 1, num_batches_tracked = 0 \<rparr>"

definition wf_bn :: "batch_norm \<Rightarrow> bool" where
  "wf_bn b =
     (length (bn_weight b) = bn_features b \<and> length (bn_bias b) = bn_features b \<and>
      length (running_mean b) = bn_features b \<and> length (running_var b) = bn_features b)"

definition bn_eps :: real where
  "bn_eps = 1 / 100000"

definition bn_momentum :: real where
  "bn_momentum = 1 / 10"

definition column :: "tensor \<Rightarrow> nat \<Rightarrow> real list" where
  "column t j = map (\<lambda>r. r ! j) (entries t)"

definition mean :: "real list \<Rightarrow> real" where
  "mean vs = sum_list vs / real (length vs)"

definition var_biased :: "real list \<Rightarrow> real" where
  "var_biased vs = sum_list (map (\<lambda>v. (v - mean vs)\<^sup>2) vs) / real (length vs)"

definition var_unbiased :: "real list \<Rightarrow> real" where
  "var_unbiased vs = sum_list (map (\<lambda>v. (v - mean vs)\<^sup>2) vs) / real (length vs - 1)"

text \<open>
  \<open>BatchNorm1d.forward(x)\<close> on a two-dimensional input, returning the output and the
  layer with its updated statistics. In training mode a batch of one row is refused, the
  batch statistics normalise the input and the running statistics move towards them; in
  evaluation mode the running statistics normalise the input and nothing is updated. An
  input without entries is returned as it is, after a read of the first weight.
\<close>

definition BatchNorm1d_forward :: "batch_norm \<Rightarrow> bool \<Rightarrow> tensor \<Rightarrow> error + (tensor \<times> batch_norm)" where
  "BatchNorm1d_forward b train_mode t =
     (let b1 = (if train_mode then b\<lparr> num_batches_tracked := num_batches_tracked b + 1 \<rparr> else b)
      in if train_mode \<and> nrows t = 1 then Inl ValueError
         else if nrows t * ncols t = 0 then
           (if bn_features b = 0 then Inl IndexError else Inr (t, b1))
         else if ncols t \<noteq> bn_features b then Inl RuntimeError
         else if train_mode then
           Inr (t\<lparr> entries :=
                    map (\<lambda>r. map (\<lambda>j. (r ! j - mean (column t j)) /
                                        sqrt (var_biased (column t j) + bn_eps) *
                                        bn_weight b ! j + bn_bias b ! j)
                               [0 ..< ncols t])
                      (entries t) \<rparr>,
                b1\<lparr> running_mean :=
                      map (\<lambda>j. (1 - bn_momentum) * running_mean b ! j +
                                bn_momentum * mean (column t j)) [0 ..< ncols t],
                    running_var :=
                      map (\<lambda>j. (1 - bn_momentum) * running_var b ! j +
                                bn_momentum * var_unbiased (column t j)) [0 ..< ncols t] \<rparr>)
         else
           Inr (t\<lparr> entries :=
                    map (\<lambda>r. map (\<lambda>j. (r ! j - running_mean b ! j) /
                                        sqrt (running_var b ! j + bn_eps) *
                                        bn_weight b ! j + bn_bias b ! j)
                               [0 ..< ncols t])
                      (entries t) \<rparr>,
                b1))"

definition F_relu :: "tensor \<Rightarrow> tensor" where
  "F_relu t = t\<lparr> entries := map (map (max 0)) (entries t) \<rparr>"

text \<open>
  \<open>F.dropout(x, p, training)\<close> for a rate below one. In training mode each entry is kept
  or zeroed by a random draw, and a kept entry is divided by \<open>1 - p\<close>; \<open>keep i j\<close> is the
  draw for entry \<open>(i, j)\<close>. Outside training mode the input is returned.
\<close>

definition F_dropout :: "tensor \<Rightarrow> real \<Rightarrow> bool \<Rightarrow> (nat \<Rightarrow> nat \<Rightarrow> bool) \<Rightarrow> tensor" where
  "F_dropout t p train_mode keep =
     (if train_mode
      then t\<lparr> entries :=
               map (\<lambda>(i, r). map (\<lambda>(j, v). if keep i j then v / (1 - p) else 0)
                                (zip [0 ..< length r] r))
                 (zip [0 ..< length (entries t)] (entries t)) \<rparr>
      else t)"

text \<open>
  \<open>nn.LogSoftmax()\<close> on a two-dimensional input works along each row: every entry minus
  the logarithm of the sum of the exponentials of its row. The program computes this in
  single precision; the formula below is the exact one, and no property of the rounded
  values is derived from it.
\<close>

definition row_exp_sum :: "real list \<Rightarrow> real" where
  "row_exp_sum r = sum_list (map exp r)"

definition LogSoftmax_forward :: "tensor \<Rightarrow> tensor" where
  "LogSoftmax_forward t =
     t\<lparr> entries := map (\<lambda>r. map (\<lambda>v. v - ln (row_exp_sum r)) r) (entries t) \<rparr>"

subsection \<open>The class GCN (lines 84 to 120)\<close>

record GCN =
  gcnlayers :: "gcn_conv list"
  last_gcn :: gcn_conv
  bns :: "batch_norm list"
  return_embeds :: bool
  training :: bool

text \<open>
  \<open>__init__\<close>. \<open>init l\<close> gives the random initial weight of the convolution number \<open>l\<close>.
  A new module is in training mode.
\<close>

definition GCN_init :: "nat \<Rightarrow> nat \<Rightarrow> nat \<Rightarrow> bool \<Rightarrow> (nat \<Rightarrow> nat \<Rightarrow> nat \<Rightarrow> real) \<Rightarrow> GCN" where
  "GCN_init input_dim hidden_dim output_dim ret_embeds init =
     \<lparr> gcnlayers = [GCNConv input_dim hidden_dim (init 0),
                    GCNConv hidden_dim hidden_dim (init 1),
                    GCNConv hidden_dim hidden_dim (init 2),
                    GCNConv hidden_dim hidden_dim (init 3)],
       last_gcn = GCNConv hidden_dim output_dim (init 4),
       bns = [BatchNorm1d hidden_dim, BatchNorm1d hidden_dim,
              BatchNorm1d hidden_dim, BatchNorm1d hidden_dim],
       return_embeds = ret_embeds,
       training = True \<rparr>"

text \<open>\<open>model.train()\<close> and \<open>model.eval()\<close>.\<close>

definition GCN_train :: "GCN \<Rightarrow> GCN" where
  "GCN_train m = m\<lparr> training := True \<rparr>"

definition GCN_eval :: "GCN \<Rightarrow> GCN" where
  "GCN_eval m = m\<lparr> training := False \<rparr>"

text \<open>
  The body of the loop of \<open>forward\<close> for the indices that remain, on the current \<open>x\<close> and
  the current batch-norm layers. \<open>masks i\<close> holds the draws of the dropout call of
  iteration \<open>i\<close>.
\<close>

fun forward_loop ::
  "GCN \<Rightarrow> (nat \<Rightarrow> nat \<Rightarrow> nat \<Rightarrow> bool) \<Rightarrow> sparse_tensor \<Rightarrow> nat list \<Rightarrow> tensor \<times> batch_norm list \<Rightarrow>
   error + (tensor \<times> batch_norm list)" where
  "forward_loop m masks adj_t [] (t, bs) = Inr (t, bs)"
| "forward_loop m masks adj_t (i # rest) (t, bs) =
     (case GCNConv_forward (gcnlayers m ! i) t adj_t of
        Inl e \<Rightarrow> Inl e
      | Inr t1 \<Rightarrow>
          if i \<ge> length bs then Inl IndexError
          else
            (case BatchNorm1d_forward (bs ! i) (training m) t1 of
               Inl e \<Rightarrow> Inl e
             | Inr (t2, b) \<Rightarrow>
                 let t3 = F_relu t2;
                     t4 = F_dropout t3 (1 / 2) (training m) (masks i)
                 in forward_loop m masks adj_t rest (t4, bs[i := b])))"

text \<open>\<open>forward\<close>: the output and the model with the batch-norm layers as the call left them.\<close>

definition forward ::
  "GCN \<Rightarrow> (nat \<Rightarrow> nat \<Rightarrow> nat \<Rightarrow> bool) \<Rightarrow> tensor \<Rightarrow> sparse_tensor \<Rightarrow> error + (tensor \<times> GCN)" where
  "forward m masks t adj_t =
     (case forward_loop m masks adj_t [0 ..< length (gcnlayers m)] (t, bns m) of
        Inl e \<Rightarrow> Inl e
      | Inr (h, bs) \<Rightarrow>
          (case GCNConv_forward (last_gcn m) h adj_t of
             Inl e \<Rightarrow> Inl e
           | Inr out \<Rightarrow>
               Inr (if \<not> return_embeds m then LogSoftmax_forward out else out,
                    m\<lparr> bns := bs \<rparr>)))"

text \<open>
  The architecture as the specification words it, for comparison with \<open>forward\<close>: one
  hidden stage is a graph convolution, then batch normalisation, then ReLU, then dropout
  at rate one half, which in training mode doubles the entries it keeps and outside
  training mode does nothing.
\<close>

definition dropout_half :: "bool \<Rightarrow> (nat \<Rightarrow> nat \<Rightarrow> bool) \<Rightarrow> tensor \<Rightarrow> tensor" where
  "dropout_half train_mode keep t =
     (if train_mode
      then t\<lparr> entries :=
               map (\<lambda>(i, r). map (\<lambda>(j, v). if keep i j then 2 * v else 0) (zip [0 ..< length r] r))
                 (zip [0 ..< length (entries t)] (entries t)) \<rparr>
      else t)"

definition hidden_stage ::
  "gcn_conv \<Rightarrow> batch_norm \<Rightarrow> bool \<Rightarrow> (nat \<Rightarrow> nat \<Rightarrow> bool) \<Rightarrow> sparse_tensor \<Rightarrow> tensor \<Rightarrow>
   error + (tensor \<times> batch_norm)" where
  "hidden_stage c b train_mode keep adj_t t =
     (case GCNConv_forward c t adj_t of
        Inl e \<Rightarrow> Inl e
      | Inr t1 \<Rightarrow>
          (case BatchNorm1d_forward b train_mode t1 of
             Inl e \<Rightarrow> Inl e
           | Inr (t2, b') \<Rightarrow> Inr (dropout_half train_mode keep (F_relu t2), b')))"

text \<open>Four hidden stages in sequence, then the output convolution, then the optional log-softmax.\<close>

definition four_stage_forward ::
  "GCN \<Rightarrow> (nat \<Rightarrow> nat \<Rightarrow> nat \<Rightarrow> bool) \<Rightarrow> tensor \<Rightarrow> sparse_tensor \<Rightarrow> error + (tensor \<times> GCN)" where
  "four_stage_forward m masks t adj_t =
     (case hidden_stage (gcnlayers m ! 0) (bns m ! 0) (training m) (masks 0) adj_t t of
        Inl e \<Rightarrow> Inl e
      | Inr (t1, b0) \<Rightarrow>
     (case hidden_stage (gcnlayers m ! 1) (bns m ! 1) (training m) (masks 1) adj_t t1 of
        Inl e \<Rightarrow> Inl e
      | Inr (t2, b1) \<Rightarrow>
     (case hidden_stage (gcnlayers m ! 2) (bns m ! 2) (training m) (masks 2) adj_t t2 of
        Inl e \<Rightarrow> Inl e
      | Inr (t3, b2) \<Rightarrow>
     (case hidden_stage (gcnlayers m ! 3) (bns m ! 3) (training m) (masks 3) adj_t t3 of
        Inl e \<Rightarrow> Inl e
      | Inr (t4, b3) \<Rightarrow>
     (case GCNConv_forward (last_gcn m) t4 adj_t of
        Inl e \<Rightarrow> Inl e
      | Inr out \<Rightarrow>
          Inr (if return_embeds m then out else LogSoftmax_forward out,
               m\<lparr> bns := [b0, b1, b2, b3] \<rparr>))))))"

text \<open>
  A model is laid out for \<open>F\<close> input features, width \<open>H\<close> and \<open>C\<close> classes when its layers
  have the sizes that \<open>__init__\<close> gives them.
\<close>

definition has_dims :: "GCN \<Rightarrow> nat \<Rightarrow> nat \<Rightarrow> nat \<Rightarrow> bool" where
  "has_dims m F H C =
     (length (gcnlayers m) = 4 \<and> length (bns m) = 4 \<and>
      list_all wf_conv (gcnlayers m) \<and> wf_conv (last_gcn m) \<and> list_all wf_bn (bns m) \<and>
      map conv_in (gcnlayers m) = [F, H, H, H] \<and>
      map conv_out (gcnlayers m) = [H, H, H, H] \<and>
      map bn_features (bns m) = [H, H, H, H] \<and>
      conv_in (last_gcn m) = H \<and> conv_out (last_gcn m) = C)"

text \<open>An adjacency over \<open>n\<close> nodes: both sizes are \<open>n\<close> and every entry names two nodes.\<close>

definition adj_over :: "sparse_tensor \<Rightarrow> nat \<Rightarrow> bool" where
  "adj_over adj n =
     (sp_sizes adj = (n, n) \<and> length (sp_row adj) = length (sp_col adj) \<and>
      list_all (\<lambda>u. u < n) (sp_row adj) \<and> list_all (\<lambda>v. v < n) (sp_col adj))"

text \<open>
  Small inputs for running the model by hand: an initialisation with all weights zero,
  dropout draws that keep or drop every entry, and a model for the four-node graph.
\<close>

definition zero_init :: "nat \<Rightarrow> nat \<Rightarrow> nat \<Rightarrow> real" where
  "zero_init l r c = 0"

definition keep_all :: "nat \<Rightarrow> nat \<Rightarrow> nat \<Rightarrow> bool" where
  "keep_all i r c = True"

definition keep_none :: "nat \<Rightarrow> nat \<Rightarrow> nat \<Rightarrow> bool" where
  "keep_none i r c = False"

definition demo_gcn :: GCN where
  "demo_gcn = GCN_init 2 3 2 False zero_init"

subsection \<open>Evaluation (lines 144 to 175)\<close>

text \<open>
  \<open>out.argmax(dim=-1, keepdim=True)\<close>: for every row the position of its first largest
  entry; a tensor without columns has nothing to reduce.
\<close>

definition argmax_row :: "real list \<Rightarrow> nat" where
  "argmax_row r =
     (case r of
        [] \<Rightarrow> 0
      | v # vs \<Rightarrow>
          fst (fold (\<lambda>(i, w) (best, bw). if w > bw then (i, w) else (best, bw))
                 (zip [1 ..< length r] vs) (0, v)))"

definition argmax :: "tensor \<Rightarrow> error + nat list" where
  "argmax t = (if ncols t = 0 then Inl IndexError else Inr (map argmax_row (entries t)))"

text \<open>
  The accuracy of one split: \<open>evaluator.eval({'y_true': data.y[idx], 'y_pred':
  y_pred[idx]})['acc']\<close> for \<open>idx = split_idx[name]\<close>. The evaluator is an argument of
  \<open>test\<close>, and so it is one here.
\<close>

definition split_acc ::
  "(nat list \<Rightarrow> nat list \<Rightarrow> error + real) \<Rightarrow> nat list \<Rightarrow> nat list \<Rightarrow> (string \<rightharpoonup> nat list) \<Rightarrow>
   string \<Rightarrow> error + real" where
  "split_acc evaluator ys y_pred split name =
     (case split name of
        None \<Rightarrow> Inl KeyError
      | Some idx \<Rightarrow>
          (case select_items ys idx of
             Inl e \<Rightarrow> Inl e
           | Inr y_true \<Rightarrow>
               (case select_items y_pred idx of
                  Inl e \<Rightarrow> Inl e
                | Inr y_sel \<Rightarrow> evaluator y_true y_sel)))"

text \<open>
  \<open>test\<close>. It switches the model to evaluation mode and returns the three accuracies;
  the model as the call leaves it is returned with them. With \<open>save_model_results\<close> set
  the function reaches the name \<open>pd\<close>, which the script never imports.
\<close>

definition test ::
  "GCN \<Rightarrow> data_t \<Rightarrow> (string \<rightharpoonup> nat list) \<Rightarrow> (nat list \<Rightarrow> nat list \<Rightarrow> error + real) \<Rightarrow> bool \<Rightarrow>
   (nat \<Rightarrow> nat \<Rightarrow> nat \<Rightarrow> bool) \<Rightarrow> error + (GCN \<times> real \<times> real \<times> real)" where
  "test m d split evaluator save_model_results masks =
     (case forward (GCN_eval m) masks (data_x d) (data_adj_t d) of
        Inl e \<Rightarrow> Inl e
      | Inr (out, m1) \<Rightarrow>
     (case argmax out of
        Inl e \<Rightarrow> Inl e
      | Inr y_pred \<Rightarrow>
     (case split_acc evaluator (data_y d) y_pred split ''train'' of
        Inl e \<Rightarrow> Inl e
      | Inr train_acc \<Rightarrow>
     (case split_acc evaluator (data_y d) y_pred split ''valid'' of
        Inl e \<Rightarrow> Inl e
      | Inr valid_acc \<Rightarrow>
     (case split_acc evaluator (data_y d) y_pred split ''test'' of
        Inl e \<Rightarrow> Inl e
      | Inr test_acc \<Rightarrow>
          if save_model_results then Inl NameError
          else Inr (m1, train_acc, valid_acc, test_acc))))))"

subsection \<open>The training loop (lines 177 to 215)\<close>

text \<open>
  \<open>args\<close> holds literal constants. The loop body first updates the parameters
  (lines 200 to 205: forward pass in training mode, loss on the train split, backward
  pass, optimizer step), then calls \<open>test\<close>, then decides about the snapshot, then
  prints one line. The parameter update is the library's (autograd and Adam): the loop
  takes it as the function \<open>fit\<close>, from the model and the optimizer state to the updated
  pair and the loss, and it takes \<open>test\<close> as the function \<open>tst\<close>, which returns the
  model it was given (switched to evaluation mode) and the three accuracies. Either may
  raise, which ends the run.
\<close>

record args_t =
  hidden_dim :: nat
  lr :: real
  epochs :: nat

definition args :: args_t where
  "args = \<lparr> hidden_dim = 256, lr = 1 / 100, epochs = 200 \<rparr>"

record epoch_line =
  line_epoch :: nat
  line_loss :: real
  line_train :: real
  line_valid :: real
  line_test :: real

record ('m, 'o) loop_state =
  model :: 'm
  optimizer :: 'o
  best_model :: "'m option"
  best_valid_acc :: real
  printed :: "epoch_line list"

text \<open>Lines 191 to 197: the state in which the loop starts.\<close>

definition initial_state :: "'m \<Rightarrow> 'o \<Rightarrow> ('m, 'o) loop_state" where
  "initial_state m opt =
     \<lparr> model = m, optimizer = opt, best_model = None, best_valid_acc = 0, printed = [] \<rparr>"

text \<open>
  Lines 200 to 215, one iteration. \<open>copy.deepcopy(model)\<close> is the value of the model at
  that moment: later updates of \<open>model\<close> do not reach it.
\<close>

definition epoch_step ::
  "('m \<Rightarrow> 'o \<Rightarrow> error + ('m \<times> 'o \<times> real)) \<Rightarrow> ('m \<Rightarrow> error + ('m \<times> real \<times> real \<times> real)) \<Rightarrow>
   nat \<Rightarrow> ('m, 'o) loop_state \<Rightarrow> error + ('m, 'o) loop_state" where
  "epoch_step fit tst epoch st =
     (case fit (model st) (optimizer st) of
        Inl e \<Rightarrow> Inl e
      | Inr (m1, opt1, loss) \<Rightarrow>
          (case tst m1 of
             Inl e \<Rightarrow> Inl e
           | Inr (m2, train_acc, valid_acc, test_acc) \<Rightarrow>
               let st1 = st\<lparr> model := m2, optimizer := opt1 \<rparr>;
                   st2 = (if valid_acc > best_valid_acc st1
                          then st1\<lparr> best_valid_acc := valid_acc, best_model := Some m2 \<rparr>
                          else st1)
               in Inr (st2\<lparr> printed := printed st2 @
                         [\<lparr> line_epoch = epoch, line_loss = loss, line_train = train_acc,
                            line_valid = valid_acc, line_test = test_acc \<rparr>] \<rparr>)))"

text \<open>The \<open>for\<close> statement over a list of epoch numbers: an error ends it.\<close>

fun run_epochs ::
  "('m \<Rightarrow> 'o \<Rightarrow> error + ('m \<times> 'o \<times> real)) \<Rightarrow> ('m \<Rightarrow> error + ('m \<times> real \<times> real \<times> real)) \<Rightarrow>
   nat list \<Rightarrow> ('m, 'o) loop_state \<Rightarrow> error + ('m, 'o) loop_state" where
  "run_epochs fit tst [] st = Inr st"
| "run_epochs fit tst (epoch # rest) st =
     (case epoch_step fit tst epoch st of
        Inl e \<Rightarrow> Inl e
      | Inr st' \<Rightarrow> run_epochs fit tst rest st')"

text \<open>Line 199: \<open>for epoch in range(1, 1 + args["epochs"])\<close>, from the initial state.\<close>

definition training_loop ::
  "('m \<Rightarrow> 'o \<Rightarrow> error + ('m \<times> 'o \<times> real)) \<Rightarrow> ('m \<Rightarrow> error + ('m \<times> real \<times> real \<times> real)) \<Rightarrow>
   args_t \<Rightarrow> 'm \<Rightarrow> 'o \<Rightarrow> error + ('m, 'o) loop_state" where
  "training_loop fit tst a m opt =
     run_epochs fit tst [1 ..< 1 + epochs a] (initial_state m opt)"


text \<open>Two stand-ins for the library calls, small enough to run the loop by hand.\<close>

definition demo_fit :: "nat \<Rightarrow> nat \<Rightarrow> error + (nat \<times> nat \<times> real)" where
  "demo_fit m opt = Inr (m + 1, opt + 1, 1 / real (m + 1))"

definition demo_test :: "nat \<Rightarrow> error + (nat \<times> real \<times> real \<times> real)" where
  "demo_test m = Inr (m, 0, (if m = 2 then 1 / 2 else 1 / 4), 0)"

definition demo_test_zero :: "nat \<Rightarrow> error + (nat \<times> real \<times> real \<times> real)" where
  "demo_test_zero m = Inr (m, 1 / 2, 0, 1 / 2)"

definition demo_args :: args_t where
  "demo_args = \<lparr> hidden_dim = 2, lr = 1 / 100, epochs = 3 \<rparr>"

subsection \<open>Properties of the subgraph extraction\<close>

lemma map_nth_upt_take: "k \<le> length xs \<Longrightarrow> map (\<lambda>i. xs ! i) [0 ..< k] = take k xs"
  by (rule nth_equalityI) simp_all

lemma length_node_idx_fold:
  "length (fold (\<lambda>(pos, i) tab. tab[i := pos]) ps tab) = length tab"
  by (induction ps arbitrary: tab) auto

lemma node_idx_fold:
  "k \<le> length tab \<Longrightarrow> u < length tab \<Longrightarrow>
   fold (\<lambda>(pos, i) tab. tab[i := pos]) (zip [0 ..< k] [0 ..< k]) tab ! u
     = (if u < k then u else tab ! u)"
proof (induction k)
  case 0
  then show ?case by simp
next
  case (Suc k)
  then show ?case by (auto simp: nth_list_update length_node_idx_fold)
qed

lemma node_idx_arange: "k \<le> n \<Longrightarrow> u < k \<Longrightarrow> node_idx [0 ..< k] n ! u = u"
  unfolding node_idx_def using node_idx_fold [of k "replicate n 0" u] by simp

lemma filter_by_mask: "map fst (filter snd (zip es (map f es))) = filter f es"
  by (induction es) auto

lemma utils_subgraph_arange:
  assumes "utils_subgraph [0 ..< k] ei n = Inr (ei', edge_mask)"
  shows "ei' = filter (\<lambda>(u, v). u < k \<and> v < k) ei \<and> k \<le> n"
proof -
  from assms have kn: "list_all (\<lambda>i. i < n) [0 ..< k]"
    and ok: "list_all (\<lambda>(u, v). u < n \<and> v < n) ei"
    by (auto simp: utils_subgraph_def index_to_mask_def split: sum.splits if_splits)
  from kn have k: "k \<le> n" by (cases k) (auto simp: list_all_iff)
  let ?mask = "map (\<lambda>i. i \<in> set [0 ..< k]) [0 ..< n]"
  have mask: "map (\<lambda>(u, v). ?mask ! u \<and> ?mask ! v) ei = map (\<lambda>(u, v). u < k \<and> v < k) ei"
    using ok by (auto simp: list_all_iff)
  have "ei' = map (\<lambda>(u, v). (node_idx [0 ..< k] n ! u, node_idx [0 ..< k] n ! v))
                (map fst (filter snd (zip ei (map (\<lambda>(u, v). ?mask ! u \<and> ?mask ! v) ei))))"
    using assms kn ok
    by (auto simp: utils_subgraph_def index_to_mask_def Let_def simp del: set_upt)
  also have "\<dots> = map (\<lambda>(u, v). (node_idx [0 ..< k] n ! u, node_idx [0 ..< k] n ! v))
                (filter (\<lambda>(u, v). u < k \<and> v < k) ei)"
    unfolding mask filter_by_mask ..
  also have "\<dots> = map (\<lambda>e. e) (filter (\<lambda>(u, v). u < k \<and> v < k) ei)"
    by (rule map_cong) (auto simp: node_idx_arange [OF k])
  finally show ?thesis using k by simp
qed

lemma utils_subgraph_arange_ok:
  assumes "k \<le> n" "list_all (\<lambda>(u, v). u < n \<and> v < n) ei"
  shows "\<exists>r. utils_subgraph [0 ..< k] ei n = Inr r"
  using assms by (auto simp: utils_subgraph_def index_to_mask_def list_all_iff Let_def)

lemma list_all_zip_both:
  "length r = length c \<Longrightarrow> list_all P r \<Longrightarrow> list_all Q c \<Longrightarrow> list_all (\<lambda>(u, v). P u \<and> Q v) (zip r c)"
  by (auto simp: list_all_iff dest: set_zip_leftD set_zip_rightD)

lemma demo_sub_graph:
  "sub_graph 3 demo_data =
     Inr \<lparr>data_x = \<lparr>nrows = 3, ncols = 2, entries = [[1, 2], [3, 4], [5, 6]]\<rparr>,
        data_y = [0, 1, 0],
        data_adj_t = \<lparr>sp_row = [0, 1, 1, 2], sp_col = [1, 0, 2, 1], sp_sizes = (3, 3)\<rparr>,
        data_edge_index = Some [(0, 1), (1, 0), (1, 2), (2, 1)],
        data_num_nodes = 3\<rparr>"
  by code_simp

text \<open>
  C2. For a graph that satisfies the invariant and a node budget \<open>k\<close> that does not exceed
  its node count, the extraction returns a graph of exactly \<open>k\<close> nodes; its feature
  matrix is well formed with \<open>k\<close> rows and the original number of columns, namely the
  first \<open>k\<close> rows of the original, and its labels are the first \<open>k\<close> labels.
\<close>

theorem sub_graph_shape:
  assumes "wf_data d" "k \<le> data_num_nodes d"
  shows "\<exists>g. sub_graph k d = Inr g \<and> data_num_nodes g = k \<and>
           nrows (data_x g) = k \<and> ncols (data_x g) = ncols (data_x d) \<and> wf_tensor (data_x g) \<and>
           entries (data_x g) = take k (entries (data_x d)) \<and> data_y g = take k (data_y d)"
proof -
  let ?ei = "zip (sp_row (data_adj_t d)) (sp_col (data_adj_t d))"
  from assms(1) have len: "length (sp_row (data_adj_t d)) = length (sp_col (data_adj_t d))"
    and ok: "list_all (\<lambda>(u, v). u < data_num_nodes d \<and> v < data_num_nodes d) ?ei"
    and x: "wf_tensor (data_x d)" "nrows (data_x d) = data_num_nodes d"
    and y: "length (data_y d) = data_num_nodes d"
    by (simp_all add: wf_data_def list_all_zip_both)
  from utils_subgraph_arange_ok [OF assms(2) ok] obtain ei' em
    where u: "utils_subgraph [0 ..< k] ?ei (data_num_nodes d) = Inr (ei', em)" by force
  have idx: "list_all (\<lambda>i. i < data_num_nodes d) [0 ..< k]"
    using assms(2) by (simp add: list_all_iff)
  have kx: "k \<le> length (entries (data_x d))" using x assms(2) by (simp add: wf_tensor_def)
  have "sub_graph k d = Inr (d\<lparr> data_edge_index := Some ei',
           data_x := \<lparr> nrows = k, ncols = ncols (data_x d), entries = take k (entries (data_x d)) \<rparr>,
           data_y := take k (data_y d), data_num_nodes := k,
           data_adj_t := SparseTensor (map fst ei') (map snd ei') \<rparr>)"
    using len u x y idx assms(2) kx
    by (simp add: sub_graph_def torch_stack_def Data_subgraph_def torch_arange_def
        select_rows_def select_items_def map_nth_upt_take)
  moreover have "list_all (\<lambda>r. length r = ncols (data_x d)) (take k (entries (data_x d)))"
    using x(1) by (auto simp: wf_tensor_def list_all_iff dest: in_set_takeD)
  ultimately show ?thesis using kx by (simp add: wf_tensor_def)
qed

theorem sub_graph_shape_witness:
  "wf_data demo_data \<and> 3 \<le> data_num_nodes demo_data \<and>
   (\<exists>g. sub_graph 3 demo_data = Inr g \<and> data_num_nodes g = 3 \<and> nrows (data_x g) = 3 \<and>
        ncols (data_x g) = 2 \<and> entries (data_x g) = [[1, 2], [3, 4], [5, 6]] \<and>
        data_y g = [0, 1, 0])"
proof -
  have w: "wf_data demo_data"
    by (simp add: wf_data_def wf_tensor_def demo_data_def)
  have k: "3 \<le> data_num_nodes demo_data"
    by (simp add: demo_data_def)
  show ?thesis
    using sub_graph_shape [OF w k] w k by (auto simp: demo_data_def)
qed

text \<open>
  C3. Whenever the extraction returns, the entries of the rebuilt adjacency are exactly
  the entries of the original adjacency whose two endpoints are both below \<open>k\<close>, in their
  original order: every retained edge has both endpoints below \<open>k\<close>, and every edge with
  an endpoint at \<open>k\<close> or above is gone.
\<close>

theorem sub_graph_edges:
  assumes "sub_graph k d = Inr g"
  shows "length (sp_row (data_adj_t g)) = length (sp_col (data_adj_t g)) \<and>
         zip (sp_row (data_adj_t g)) (sp_col (data_adj_t g))
           = filter (\<lambda>(u, v). u < k \<and> v < k) (zip (sp_row (data_adj_t d)) (sp_col (data_adj_t d))) \<and>
         (\<forall>(u, v) \<in> set (zip (sp_row (data_adj_t g)) (sp_col (data_adj_t g))). u < k \<and> v < k)"
proof -
  let ?ei = "zip (sp_row (data_adj_t d)) (sp_col (data_adj_t d))"
  from assms obtain ei' em where u: "utils_subgraph [0 ..< k] ?ei (data_num_nodes d) = Inr (ei', em)"
    and g: "data_adj_t g = SparseTensor (map fst ei') (map snd ei')"
    by (auto simp: sub_graph_def torch_stack_def Data_subgraph_def torch_arange_def
        split: sum.splits if_splits option.splits prod.splits)
  from utils_subgraph_arange [OF u] have e: "ei' = filter (\<lambda>(u, v). u < k \<and> v < k) ?ei" by simp
  have z: "zip (sp_row (data_adj_t g)) (sp_col (data_adj_t g)) = ei'"
    by (simp add: g SparseTensor_def zip_map_fst_snd)
  show ?thesis using e z by (auto simp: g SparseTensor_def)
qed

theorem sub_graph_edges_witness:
  "\<exists>g. sub_graph 3 demo_data = Inr g \<and>
      zip (sp_row (data_adj_t g)) (sp_col (data_adj_t g)) = [(0, 1), (1, 0), (1, 2), (2, 1)] \<and>
      (\<forall>(u, v) \<in> set (zip (sp_row (data_adj_t g)) (sp_col (data_adj_t g))). u < 3 \<and> v < 3)"
  using sub_graph_edges [OF demo_sub_graph] demo_sub_graph
  by (auto simp: demo_data_def)

subsection \<open>Properties of the float product\<close>

lemma bitlen_less: "n < 2 ^ bitlen n"
proof (induction n rule: bitlen.induct)
  case (1 n)
  show ?case
  proof (cases "n = 0")
    case True
    then show ?thesis by simp
  next
    case False
    with 1 have "n div 2 < 2 ^ bitlen (n div 2)" by simp
    then have "n < 2 * 2 ^ bitlen (n div 2)" by linarith
    with False show ?thesis by (subst bitlen.simps) simp
  qed
qed

lemma bitlen_ge: "0 < n \<Longrightarrow> 2 ^ (bitlen n - 1) \<le> n"
proof (induction n rule: bitlen.induct)
  case (1 n)
  show ?case
  proof (cases "n div 2 = 0")
    case True
    with 1(2) have "n = 1" by linarith
    then show ?thesis by (simp add: bitlen.simps)
  next
    case False
    with 1 have "2 ^ (bitlen (n div 2) - 1) \<le> n div 2" by simp
    then have le: "2 * 2 ^ (bitlen (n div 2) - 1) \<le> n" by linarith
    from False have "0 < bitlen (n div 2)" by (subst bitlen.simps) simp
    then have "bitlen (n div 2) = Suc (bitlen (n div 2) - 1)" by simp
    then have "(2::nat) ^ bitlen (n div 2) = 2 * 2 ^ (bitlen (n div 2) - 1)"
      by (metis power_Suc)
    with le 1(2) show ?thesis by (subst bitlen.simps) simp
  qed
qed

lemma bitlen_le: "n < 2 ^ j \<Longrightarrow> bitlen n \<le> j"
proof (rule ccontr)
  assume n: "n < 2 ^ j" and "\<not> bitlen n \<le> j"
  then have j: "j \<le> bitlen n - 1" by simp
  have "0 < n" using \<open>\<not> bitlen n \<le> j\<close> by (cases "n = 0") (simp_all add: bitlen.simps)
  from bitlen_ge [OF this] have "2 ^ (bitlen n - 1) \<le> n" .
  moreover have "(2::nat) ^ j \<le> 2 ^ (bitlen n - 1)" using j by (rule power_increasing) simp
  ultimately show False using n by linarith
qed

text \<open>The rounded value is a multiple of the unit and at most half a unit away.\<close>

lemma round53_near:
  fixes n :: nat
  defines "s \<equiv> bitlen n - 53"
  shows "\<exists>c. round53 n = c * 2 ^ s \<and> 2 * n \<le> 2 * (c * 2 ^ s) + 2 ^ s \<and> 2 * (c * 2 ^ s) \<le> 2 * n + 2 ^ s"
proof -
  define q where "q = n div 2 ^ s"
  define r where "r = n mod 2 ^ s"
  have n: "n = q * 2 ^ s + r"
    using div_mult_mod_eq [of n "2 ^ s"] by (simp add: q_def r_def)
  have r: "r < 2 ^ s" by (simp add: r_def)
  show ?thesis
  proof (cases "2 * r > 2 ^ s \<or> (2 * r = 2 ^ s \<and> odd q)")
    case True
    then have "round53 n = (q + 1) * 2 ^ s"
      by (simp add: round53_def Let_def s_def [symmetric] q_def r_def)
    moreover have "2 * n \<le> 2 * ((q + 1) * 2 ^ s) + 2 ^ s" using n r by (simp add: algebra_simps)
    moreover have "2 * ((q + 1) * 2 ^ s) \<le> 2 * n + 2 ^ s" using n True by (auto simp add: algebra_simps)
    ultimately show ?thesis by blast
  next
    case False
    then have "round53 n = q * 2 ^ s"
      by (simp add: round53_def Let_def s_def [symmetric] q_def r_def)
    moreover have "2 * n \<le> 2 * (q * 2 ^ s) + 2 ^ s" using n False by (auto simp add: algebra_simps)
    moreover have "2 * (q * 2 ^ s) \<le> 2 * n + 2 ^ s" using n by (simp add: algebra_simps)
    ultimately show ?thesis by blast
  qed
qed

lemma round53_exact: "n < 2 ^ 53 \<Longrightarrow> round53 n = n"
  using bitlen_le [of n 53] by (simp add: round53_def)

lemma round53_div:
  fixes n A e :: nat
  defines "s \<equiv> bitlen n - 53"
  assumes se: "s \<le> e"
    and lo: "2 * (A * 2 ^ e) < 2 * n + 2 ^ s"
    and hi: "2 * n + 2 ^ s < 2 * ((A + 1) * 2 ^ e)"
  shows "round53 n div 2 ^ e = A"
proof -
  from round53_near [of n] obtain c where c: "round53 n = c * 2 ^ s"
    and c1: "2 * n \<le> 2 * (c * 2 ^ s) + 2 ^ s" and c2: "2 * (c * 2 ^ s) \<le> 2 * n + 2 ^ s"
    unfolding s_def by blast
  have pe: "(2::nat) ^ e = 2 ^ (e - s) * 2 ^ s" using se by (simp flip: power_add)
  have "2 * (A * 2 ^ e) < 2 * ((c + 1) * 2 ^ s)" using lo c1 by (simp add: algebra_simps)
  then have "A * 2 ^ (e - s) * 2 ^ s < (c + 1) * 2 ^ s" by (simp add: pe algebra_simps)
  then have "A * 2 ^ (e - s) < c + 1" unfolding mult_less_cancel2 by blast
  then have "A * 2 ^ (e - s) \<le> c" by simp
  then have "A * 2 ^ (e - s) * 2 ^ s \<le> c * 2 ^ s" by (rule mult_le_mono1)
  then have lower: "A * 2 ^ e \<le> round53 n" by (simp add: c pe algebra_simps)
  have upper: "round53 n < (A + 1) * 2 ^ e" using hi c2 c by linarith
  have "round53 n div 2 ^ e = A"
    using lower upper by (intro div_nat_eqI) (simp_all add: algebra_simps)
  then show ?thesis .
qed


lemma round53_unit:
  assumes "n < 2 ^ 103"
  obtains X :: nat where "X = 2 ^ (bitlen n - 53)" "1 \<le> X" "X \<le> 2 ^ 50" "n < X * 2 ^ 53"
proof -
  have b: "bitlen n \<le> 103" using assms by (rule bitlen_le)
  then have "(2::nat) ^ (bitlen n - 53) \<le> 2 ^ 50" by (intro power_increasing) simp_all
  moreover have "n < 2 ^ (bitlen n - 53) * 2 ^ 53"
  proof -
    have "bitlen n \<le> (bitlen n - 53) + 53" by simp
    then have "(2::nat) ^ bitlen n \<le> 2 ^ ((bitlen n - 53) + 53)" by (intro power_increasing) simp_all
    with bitlen_less [of n] show ?thesis by (simp add: power_add)
  qed
  ultimately show ?thesis using that [of "2 ^ (bitlen n - 53)"] by simp
qed

lemma int_0_8:
  assumes k: "k < 2 ^ 50"
  shows "round53 (round53 k * 7205759403792794) div 2 ^ 53 = 4 * k div 5"
proof -
  have rk: "round53 k = k" using k by (intro round53_exact) simp
  define n where "n = k * 7205759403792794"
  define A where "A = 4 * k div 5"
  have A: "5 * A \<le> 4 * k" "4 * k < 5 * A + 5" unfolding A_def by presburger+
  have n103: "n < 2 ^ 103" using k unfolding n_def by simp
  from round53_unit [OF n103] obtain X :: nat where
    X: "X = 2 ^ (bitlen n - 53)" "1 \<le> X" "X \<le> 2 ^ 50" "n < X * 2 ^ 53" by blast
  have "bitlen n - 53 \<le> 53" using bitlen_le [OF n103] by simp
  moreover have "2 * (A * 2 ^ 53) < 2 * n + 2 ^ (bitlen n - 53)"
    unfolding X(1) [symmetric] using A X k unfolding n_def by simp
  moreover have "2 * n + 2 ^ (bitlen n - 53) < 2 * ((A + 1) * 2 ^ 53)"
    unfolding X(1) [symmetric] using A X k unfolding n_def by simp
  ultimately have "round53 n div 2 ^ 53 = A" by (rule round53_div)
  then show ?thesis by (simp add: rk n_def A_def)
qed

lemma int_0_05:
  assumes k: "k < 2 ^ 50"
  shows "round53 (round53 k * 7205759403792794) div 2 ^ 57 = k div 20"
proof -
  have rk: "round53 k = k" using k by (intro round53_exact) simp
  define n where "n = k * 7205759403792794"
  define A where "A = k div 20"
  have A: "20 * A \<le> k" "k < 20 * A + 20" unfolding A_def by presburger+
  have n103: "n < 2 ^ 103" using k unfolding n_def by simp
  from round53_unit [OF n103] obtain X :: nat where
    X: "X = 2 ^ (bitlen n - 53)" "1 \<le> X" "X \<le> 2 ^ 50" "n < X * 2 ^ 53" by blast
  have "bitlen n - 53 \<le> 57" using bitlen_le [OF n103] by simp
  moreover have "2 * (A * 2 ^ 57) < 2 * n + 2 ^ (bitlen n - 53)"
    unfolding X(1) [symmetric] using A X k unfolding n_def by simp
  moreover have "2 * n + 2 ^ (bitlen n - 53) < 2 * ((A + 1) * 2 ^ 57)"
    unfolding X(1) [symmetric] using A X k unfolding n_def by simp
  ultimately have "round53 n div 2 ^ 57 = A" by (rule round53_div)
  then show ?thesis by (simp add: rk n_def A_def)
qed

lemma int_0_15:
  assumes k: "k < 2 ^ 50"
  shows "round53 (round53 k * 5404319552844595) div 2 ^ 55 = 3 * k div 20"
proof -
  have rk: "round53 k = k" using k by (intro round53_exact) simp
  define n where "n = k * 5404319552844595"
  define A where "A = 3 * k div 20"
  have A: "20 * A \<le> 3 * k" "3 * k < 20 * A + 20" unfolding A_def by presburger+
  have n103: "n < 2 ^ 103" using k unfolding n_def by simp
  from round53_unit [OF n103] obtain X :: nat where
    X: "X = 2 ^ (bitlen n - 53)" "1 \<le> X" "X \<le> 2 ^ 50" "n < X * 2 ^ 53" by blast
  have "bitlen n - 53 \<le> 55" using bitlen_le [OF n103] by simp
  moreover have "2 * (A * 2 ^ 55) < 2 * n + 2 ^ (bitlen n - 53)"
    unfolding X(1) [symmetric] using A X k unfolding n_def by simp
  moreover have "2 * n + 2 ^ (bitlen n - 53) < 2 * ((A + 1) * 2 ^ 55)"
    unfolding X(1) [symmetric] using A X k unfolding n_def by simp
  ultimately have "round53 n div 2 ^ 55 = A" by (rule round53_div)
  then show ?thesis by (simp add: rk n_def A_def)
qed


lemma float_int_limit_big: "2 ^ 50 \<le> float_int_limit"
proof -
  have "(2::nat) ^ 970 + 2 ^ 50 \<le> 2 ^ 970 + 2 ^ 970"
    by (intro add_left_mono power_increasing) simp_all
  also have "\<dots> = 2 ^ 971" by simp
  also have "\<dots> \<le> 2 ^ 1024" by (intro power_increasing) simp_all
  finally show ?thesis unfolding float_int_limit_def by linarith
qed

text \<open>Below \<open>2 ^ 50\<close> the three truncated products are the floors of the exact fractions.\<close>

lemma split_sizes_exact:
  assumes "k < 2 ^ 50"
  shows "split_sizes k = Inr [4 * k div 5, k div 20, 3 * k div 20]"
proof -
  have "\<not> k \<ge> float_int_limit" using assms float_int_limit_big by linarith
  then show ?thesis
    using int_0_8 [OF assms] int_0_05 [OF assms] int_0_15 [OF assms]
    by (simp add: split_sizes_def int_times_float_def py_int_def lit_0_8_def lit_0_05_def
        lit_0_15_def)
qed

lemma sum_floor_nat:
  fixes k :: nat
  shows "4 * k div 5 + k div 20 + 3 * k div 20 \<le> k \<and>
         (4 * k div 5 + k div 20 + 3 * k div 20 = k \<longleftrightarrow> 20 dvd k)"
proof -
  define a where "a = 4 * k div 5"
  define b where "b = k div 20"
  define c where "c = 3 * k div 20"
  have a: "5 * a \<le> 4 * k" unfolding a_def by simp
  have b: "20 * b \<le> k" unfolding b_def by simp
  have c: "20 * c \<le> 3 * k" unfolding c_def by simp
  have le: "a + b + c \<le> k" using a b c by linarith
  have "20 dvd k" if "a + b + c = k"
  proof -
    from that a b c have "k = 20 * b" by linarith
    then show ?thesis by (metis dvd_triv_left)
  qed
  moreover have "a + b + c = k" if "20 dvd k"
  proof -
    from that obtain j where j: "k = 20 * j" by (auto simp: dvd_def)
    have "a = 16 * j" "b = j" "c = 3 * j" by (simp_all add: a_def b_def c_def j)
    then show ?thesis using j by simp
  qed
  ultimately show ?thesis using le unfolding a_def b_def c_def by blast
qed


subsection \<open>Properties of the split\<close>

lemma shuffle_fold:
  "\<forall>i \<in> set is. i < length ys \<Longrightarrow>
   mset (fold (\<lambda>i ys. let j = rnd i mod (i + 1) in ys[i := ys ! j, j := ys ! i]) is ys) = mset ys"
proof (induction "is" arbitrary: ys)
  case Nil
  then show ?case by simp
next
  case (Cons i "is")
  let ?j = "rnd i mod (i + 1)"
  let ?ys = "ys[i := ys ! ?j, ?j := ys ! i]"
  have i: "i < length ys" using Cons.prems by simp
  have "?j < i + 1" by simp
  with i have j: "?j < length ys" by linarith
  have m: "mset ?ys = mset ys" using mset_swap [OF j i] .
  have "\<forall>i \<in> set is. i < length ?ys" using Cons.prems by simp
  from Cons.IH [OF this] m show ?case by (simp add: Let_def)
qed

lemma np_random_shuffle_mset: "mset (np_random_shuffle rnd xs) = mset xs"
  unfolding np_random_shuffle_def by (rule shuffle_fold) simp

lemma chunks3:
  "chunks xs [a, b, c] = [take a xs, take b (drop a xs), take c (drop b (drop a xs))]"
  by simp

lemma distinct_take_drop_disjoint:
  "distinct xs \<Longrightarrow> set (take a xs) \<inter> set (drop a xs) = {}"
  by (metis append_take_drop_id distinct_append)

lemma length_np_random_shuffle: "length (np_random_shuffle rnd xs) = length xs"
  using mset_eq_length [OF np_random_shuffle_mset [of rnd xs]] .

lemma split_idx_cases:
  assumes "split_sizes k = Inr sizes"
  shows "split_idx k rnd =
     (if sum_list sizes = k
      then Inr (map_of (zip [''train'', ''valid'', ''test'']
                  (chunks (np_random_shuffle rnd (torch_arange k)) sizes)))
      else Inl RuntimeError)"
  using assms
  by (simp add: split_idx_def torch_split_def length_np_random_shuffle torch_arange_def)

text \<open>
  C4, as the code has it. When the three computed sizes add up to exactly the node count,
  the split returns a dictionary whose train, valid and test entries have those sizes
  (which therefore add up to at most the node count), are duplicate free, pairwise
  disjoint and together cover every node position. For a node count below \<open>2 ^ 50\<close> the
  sizes are the floors of 80, 5 and 15 percent of it.
\<close>

theorem split_idx_sizes:
  assumes sz: "split_sizes k = Inr [a, b, c]" and sum: "a + b + c = k"
  shows "\<exists>idx tr va te. split_idx k rnd = Inr idx \<and>
           idx ''train'' = Some tr \<and> idx ''valid'' = Some va \<and> idx ''test'' = Some te \<and>
           length tr = a \<and> length va = b \<and> length te = c \<and> a + b + c \<le> k \<and>
           distinct tr \<and> distinct va \<and> distinct te \<and>
           set tr \<inter> set va = {} \<and> set tr \<inter> set te = {} \<and> set va \<inter> set te = {} \<and>
           set tr \<union> set va \<union> set te = {0 ..< k} \<and>
           (k < 2 ^ 50 \<longrightarrow> a = 4 * k div 5 \<and> b = k div 20 \<and> c = 3 * k div 20)"
proof -
  define xs where "xs = np_random_shuffle rnd (torch_arange k)"
  have m: "mset xs = mset [0 ..< k]" by (simp add: xs_def np_random_shuffle_mset torch_arange_def)
  have len: "length xs = k" using mset_eq_length [OF m] by simp
  have d: "distinct xs" using mset_eq_imp_distinct_iff [OF m] by simp
  have s: "set xs = {0 ..< k}" using mset_eq_setD [OF m] by simp
  define tr where "tr = take a xs"
  define va where "va = take b (drop a xs)"
  define te where "te = take c (drop b (drop a xs))"
  have run: "split_idx k rnd = Inr (map_of (zip [''train'', ''valid'', ''test''] [tr, va, te]))"
    using sz sum len by (simp add: split_idx_def torch_split_def xs_def [symmetric] tr_def va_def te_def)
  have xs: "xs = tr @ va @ te"
  proof -
    have "te = drop b (drop a xs)" using sum len by (simp add: te_def)
    then have "va @ te = drop a xs" by (simp only: va_def append_take_drop_id)
    then show ?thesis by (simp only: tr_def append_take_drop_id)
  qed
  have dd: "distinct (tr @ va @ te)" using d xs by simp
  have "length tr = a" "length va = b" "length te = c"
    using sum len by (simp_all add: tr_def va_def te_def)
  moreover have "set tr \<union> set va \<union> set te = {0 ..< k}" using s xs by auto
  moreover have "k < 2 ^ 50 \<longrightarrow> a = 4 * k div 5 \<and> b = k div 20 \<and> c = 3 * k div 20"
    using sz split_sizes_exact [of k] by auto
  moreover have "idx ''train'' = Some tr \<and> idx ''valid'' = Some va \<and> idx ''test'' = Some te"
    if "idx = map_of (zip [''train'', ''valid'', ''test''] [tr, va, te])" for idx
    using that by simp
  moreover have "distinct tr" "distinct va" "distinct te"
    "set tr \<inter> set va = {}" "set tr \<inter> set te = {}" "set va \<inter> set te = {}"
    using dd by auto
  ultimately show ?thesis using run sum by (intro exI [of _ "map_of (zip [''train'', ''valid'', ''test''] [tr, va, te])"] exI [of _ tr] exI [of _ va] exI [of _ te]) simp
qed

theorem split_idx_sizes_witness:
  "split_sizes 20 = Inr [16, 1, 3] \<and> 16 + 1 + 3 = (20::nat) \<and>
   (\<exists>idx tr va te. split_idx 20 zero_draws = Inr idx \<and>
      idx ''train'' = Some tr \<and> idx ''valid'' = Some va \<and> idx ''test'' = Some te \<and>
      length tr = 16 \<and> length va = 1 \<and> length te = 3 \<and>
      set tr \<inter> set va = {} \<and> set tr \<inter> set te = {} \<and> set va \<inter> set te = {})"
proof -
  have s: "split_sizes 20 = Inr [16, 1, 3]"
    using split_sizes_exact [of 20] by simp
  have t: "16 + 1 + 3 = (20::nat)" by simp
  show ?thesis
    using split_idx_sizes [OF s t, of zero_draws] s by auto
qed

text \<open>For ten nodes the sizes are 8, 0 and 1, and the split raises instead of returning.\<close>

theorem split_idx_sizes_counterexample:
  "split_sizes 10 = Inr [8, 0, 1] \<and> split_idx 10 zero_draws = Inl RuntimeError"
proof -
  have s: "split_sizes 10 = Inr [8, 0, 1]"
    using split_sizes_exact [of 10] by simp
  show ?thesis using split_idx_cases [OF s, of zero_draws] s by simp
qed

text \<open>
  C5, as the code has it. When the three computed sizes add up to fewer than the node
  count, \<open>torch.split\<close> rejects them: the split raises a \<open>RuntimeError\<close> and returns no
  dictionary. For a node count below \<open>2 ^ 50\<close> this happens exactly when the count is not
  a multiple of 20.
\<close>

theorem split_idx_raises:
  assumes "split_sizes k = Inr sizes"
  shows "(sum_list sizes < k \<longrightarrow> split_idx k rnd = Inl RuntimeError) \<and>
         (k < 2 ^ 50 \<longrightarrow> (sum_list sizes < k \<longleftrightarrow> \<not> 20 dvd k))"
proof -
  have "sum_list sizes < k \<longleftrightarrow> \<not> 20 dvd k" if "k < 2 ^ 50"
  proof -
    from split_sizes_exact [OF that] assms
    have "sizes = [4 * k div 5, k div 20, 3 * k div 20]" by simp
    then show ?thesis using sum_floor_nat [of k] by auto
  qed
  then show ?thesis using split_idx_cases [OF assms, of rnd] by simp
qed

theorem split_idx_raises_witness:
  "split_sizes 19 = Inr [15, 0, 2] \<and> sum_list [15, 0, 2] < (19::nat) \<and>
   split_idx 19 zero_draws = Inl RuntimeError \<and> \<not> 20 dvd (19::nat)"
proof -
  have s: "split_sizes 19 = Inr [15, 0, 2]"
    using split_sizes_exact [of 19] by simp
  show ?thesis using split_idx_raises [OF s, of zero_draws] s by simp
qed

text \<open>For seven nodes the sizes are 5, 0 and 1; one position is left over, and the split raises.\<close>

theorem split_idx_raises_counterexample:
  "split_sizes 7 = Inr [5, 0, 1] \<and> sum_list [5, 0, 1] < (7::nat) \<and>
   split_idx 7 zero_draws \<noteq> Inr (map_of (zip [''train'', ''valid'', ''test'']
       (chunks (np_random_shuffle zero_draws (torch_arange 7)) [5, 0, 1]))) \<and>
   split_idx 7 zero_draws = Inl RuntimeError"
proof -
  have s: "split_sizes 7 = Inr [5, 0, 1]"
    using split_sizes_exact [of 7] by simp
  show ?thesis using split_idx_cases [OF s, of zero_draws] s by simp
qed

subsection \<open>Properties of the model\<close>

lemma half_rate: "(v::real) / (1 - 1 / 2) = 2 * v"
  by simp

lemma dropout_half_eq: "F_dropout t (1 / 2) tr keep = dropout_half tr keep t"
  unfolding F_dropout_def dropout_half_def half_rate ..

lemma F_dropout_eval: "F_dropout t p False keep = t"
  by (simp add: F_dropout_def)

lemma BatchNorm1d_forward_eval:
  "BatchNorm1d_forward b False t = Inr (t', b') \<Longrightarrow> b' = b"
  by (auto simp: BatchNorm1d_forward_def Let_def split: if_splits)

lemma BatchNorm1d_forward_features:
  "BatchNorm1d_forward b tr t = Inr (t', b') \<Longrightarrow> bn_features b' = bn_features b"
  by (auto simp: BatchNorm1d_forward_def Let_def split: if_splits)

lemma forward_loop_eval:
  "\<not> training m \<Longrightarrow>
   forward_loop m masks adj is (t, bs) = forward_loop m masks' adj is (t, bs) \<and>
   (\<forall>h bs'. forward_loop m masks adj is (t, bs) = Inr (h, bs') \<longrightarrow> bs' = bs)"
proof (induction "is" arbitrary: t bs)
  case Nil
  then show ?case by simp
next
  case (Cons i "is")
  show ?case
  proof (cases "GCNConv_forward (gcnlayers m ! i) t adj")
    case (Inl e)
    then show ?thesis by simp
  next
    case (Inr t1)
    show ?thesis
    proof (cases "i \<ge> length bs")
      case True
      with Inr show ?thesis by simp
    next
      case False
      show ?thesis
      proof (cases "BatchNorm1d_forward (bs ! i) False t1")
        case (Inl e)
        with Inr False Cons.prems show ?thesis by simp
      next
        case r: (Inr p)
        obtain t2 b where p: "p = (t2, b)" by (cases p)
        from r p have b: "b = bs ! i" by (auto dest: BatchNorm1d_forward_eval)
        have upd: "bs[i := b] = bs" using b by simp
        show ?thesis
          using Inr False r p Cons.prems Cons.IH [OF Cons.prems, of "F_relu t2" bs]
          by (simp add: upd F_dropout_eval Let_def)
      qed
    qed
  qed
qed

lemma forward_eval_masks:
  assumes "\<not> training m"
  shows "forward m masks2 t adj = forward m masks1 t adj"
  using forward_loop_eval [OF assms, of masks2 adj _ t "bns m" masks1]
  by (simp add: forward_def)

lemma forward_eval_model:
  assumes "\<not> training m" "forward m masks t adj = Inr (out, m1)"
  shows "m1 = m"
proof -
  let ?is = "[0 ..< length (gcnlayers m)]"
  from assms(2) obtain h bs' where l: "forward_loop m masks adj ?is (t, bns m) = Inr (h, bs')"
    and m1: "m1 = m\<lparr> bns := bs' \<rparr>"
    unfolding forward_def by (auto split: sum.splits prod.splits)
  from forward_loop_eval [OF assms(1), of masks adj ?is t "bns m" masks] l have "bs' = bns m"
    by blast
  with m1 show ?thesis by simp
qed

lemma test_masks:
  "test m d split evaluator save masks2 = test m d split evaluator save masks1"
  unfolding test_def
  using forward_eval_masks [of "GCN_eval m" masks2 "data_x d" "data_adj_t d" masks1]
  by (simp add: GCN_eval_def)

lemma test_model:
  assumes "test m d split evaluator save masks = Inr (m1, accs)"
  shows "m1 = GCN_eval m"
proof -
  from assms obtain out where "forward (GCN_eval m) masks (data_x d) (data_adj_t d) = Inr (out, m1)"
    unfolding test_def by (auto split: sum.splits prod.splits if_splits)
  from forward_eval_model [OF _ this] show ?thesis by (simp add: GCN_eval_def)
qed

lemma forward_four_stage:
  assumes "length (gcnlayers m) = 4" "length (bns m) = 4"
  shows "forward m masks t adj = four_stage_forward m masks t adj"
proof -
  have u: "[0 ..< length (gcnlayers m)] = [0, 1, 2, 3]"
    using assms(1) by (simp add: upt_rec)
  obtain b0 b1 b2 b3 where bs: "bns m = [b0, b1, b2, b3]"
    using assms(2) by (auto simp: length_Suc_conv numeral_eq_Suc)
  show ?thesis
    unfolding forward_def four_stage_forward_def u hidden_stage_def bs
    by (auto simp: dropout_half_eq Let_def split: sum.splits prod.splits)
qed

lemma GCNConv_forward_shape:
  assumes "GCNConv_forward c t adj = Inr out"
  shows "wf_tensor out \<and> nrows out = fst (sp_sizes adj) \<and> ncols out = conv_out c"
  using assms
  by (auto simp: GCNConv_forward_def wf_tensor_def list_all_iff split: if_splits)

lemma GCNConv_forward_total:
  assumes "adj_over adj n" "nrows t = n" "ncols t = conv_in c"
  shows "\<exists>out. GCNConv_forward c t adj = Inr out"
proof -
  have "list_all (\<lambda>(u, v). v < nrows t) (filled_entries adj)"
    using assms(1,2)
    by (auto simp: adj_over_def filled_entries_def list_all_iff dest: set_zip_rightD)
  then show ?thesis using assms by (simp add: GCNConv_forward_def adj_over_def)
qed

lemma BatchNorm1d_forward_shape:
  assumes "BatchNorm1d_forward b tr t = Inr (out, b')" "wf_tensor t"
  shows "wf_tensor out \<and> nrows out = nrows t \<and> ncols out = ncols t"
  using assms
  by (auto simp: BatchNorm1d_forward_def Let_def wf_tensor_def list_all_iff split: if_splits)

lemma BatchNorm1d_forward_total:
  assumes "ncols t = bn_features b" "0 < bn_features b" "tr \<longrightarrow> nrows t \<noteq> 1"
  shows "\<exists>out b'. BatchNorm1d_forward b tr t = Inr (out, b')"
  using assms by (auto simp: BatchNorm1d_forward_def Let_def)

lemma F_relu_shape:
  "wf_tensor t \<Longrightarrow> wf_tensor (F_relu t) \<and> nrows (F_relu t) = nrows t \<and> ncols (F_relu t) = ncols t"
  by (auto simp: F_relu_def wf_tensor_def list_all_iff)

lemma dropout_half_shape:
  "wf_tensor t \<Longrightarrow> wf_tensor (dropout_half tr keep t) \<and>
     nrows (dropout_half tr keep t) = nrows t \<and> ncols (dropout_half tr keep t) = ncols t"
  by (auto simp: dropout_half_def wf_tensor_def list_all_iff dest!: set_zip_rightD)

lemma LogSoftmax_forward_shape:
  "wf_tensor t \<Longrightarrow> wf_tensor (LogSoftmax_forward t) \<and>
     nrows (LogSoftmax_forward t) = nrows t \<and> ncols (LogSoftmax_forward t) = ncols t"
  by (auto simp: LogSoftmax_forward_def wf_tensor_def list_all_iff)

lemma hidden_stage_shape:
  assumes "hidden_stage c b tr keep adj t = Inr (t', b')"
  shows "wf_tensor t' \<and> nrows t' = fst (sp_sizes adj) \<and> ncols t' = conv_out c \<and>
         bn_features b' = bn_features b"
proof -
  from assms obtain t1 t2 where c: "GCNConv_forward c t adj = Inr t1"
    and b: "BatchNorm1d_forward b tr t1 = Inr (t2, b')"
    and t': "t' = dropout_half tr keep (F_relu t2)"
    by (auto simp: hidden_stage_def split: sum.splits prod.splits)
  from GCNConv_forward_shape [OF c] have s1: "wf_tensor t1" "nrows t1 = fst (sp_sizes adj)"
    "ncols t1 = conv_out c" by simp_all
  from BatchNorm1d_forward_shape [OF b s1(1)] s1
  have s2: "wf_tensor t2" "nrows t2 = fst (sp_sizes adj)" "ncols t2 = conv_out c" by simp_all
  from F_relu_shape [OF s2(1)] s2
  have s3: "wf_tensor (F_relu t2)" "nrows (F_relu t2) = fst (sp_sizes adj)"
    "ncols (F_relu t2) = conv_out c" by simp_all
  from dropout_half_shape [OF s3(1), of tr keep] s3 t' BatchNorm1d_forward_features [OF b]
  show ?thesis by simp
qed

lemma hidden_stage_total:
  assumes "adj_over adj n" "nrows t = n" "ncols t = conv_in c" "bn_features b = conv_out c"
    "0 < conv_out c" "tr \<longrightarrow> n \<noteq> 1"
  shows "\<exists>t' b'. hidden_stage c b tr keep adj t = Inr (t', b')"
proof -
  from GCNConv_forward_total [OF assms(1-3)] obtain t1 where c: "GCNConv_forward c t adj = Inr t1"
    by blast
  from GCNConv_forward_shape [OF c] assms(1)
  have s1: "nrows t1 = n" "ncols t1 = conv_out c" by (simp_all add: adj_over_def)
  from BatchNorm1d_forward_total [of t1 b tr] s1 assms(4-6)
  obtain t2 b' where "BatchNorm1d_forward b tr t1 = Inr (t2, b')" by auto
  with c show ?thesis by (simp add: hidden_stage_def)
qed

lemma has_dims_GCN_init: "has_dims (GCN_init F H C re init) F H C"
  by (simp add: has_dims_def GCN_init_def GCNConv_def BatchNorm1d_def wf_conv_def wf_bn_def
      list_all_iff)

lemma has_dims_training: "has_dims (m\<lparr> training := tr \<rparr>) F H C = has_dims m F H C"
  by (simp add: has_dims_def)

lemma forward_shape_partial:
  assumes "forward m masks t adj = Inr (out, m')"
  shows "wf_tensor out \<and> nrows out = fst (sp_sizes adj) \<and> ncols out = conv_out (last_gcn m)"
proof -
  from assms obtain h raw where c: "GCNConv_forward (last_gcn m) h adj = Inr raw"
    and out: "out = (if \<not> return_embeds m then LogSoftmax_forward raw else raw)"
    by (auto simp: forward_def split: sum.splits prod.splits)
  from GCNConv_forward_shape [OF c] LogSoftmax_forward_shape [of raw] out
  show ?thesis by (cases "return_embeds m") simp_all
qed

lemma forward_total:
  assumes d: "has_dims m F H C" and t: "nrows t = N" "ncols t = F" and a: "adj_over adj N"
    and H: "0 < H" and tr: "training m \<longrightarrow> N \<noteq> 1"
  shows "\<exists>out m'. forward m masks t adj = Inr (out, m')"
proof -
  from d have len: "length (gcnlayers m) = 4" "length (bns m) = 4" by (simp_all add: has_dims_def)
  obtain c0 c1 c2 c3 where cs: "gcnlayers m = [c0, c1, c2, c3]"
    using len(1) by (auto simp: length_Suc_conv numeral_eq_Suc)
  obtain b0 b1 b2 b3 where bs: "bns m = [b0, b1, b2, b3]"
    using len(2) by (auto simp: length_Suc_conv numeral_eq_Suc)
  from d cs bs have dims:
    "conv_in c0 = F" "conv_in c1 = H" "conv_in c2 = H" "conv_in c3 = H"
    "conv_out c0 = H" "conv_out c1 = H" "conv_out c2 = H" "conv_out c3 = H"
    "bn_features b0 = H" "bn_features b1 = H" "bn_features b2 = H" "bn_features b3 = H"
    "conv_in (last_gcn m) = H"
    by (simp_all add: has_dims_def)
  from a have sz: "fst (sp_sizes adj) = N" by (simp add: adj_over_def)
  let ?tr = "training m"
  from hidden_stage_total [OF a t(1), of c0 b0 ?tr "masks 0"] t dims H tr
  obtain t1 b0' where s0: "hidden_stage c0 b0 ?tr (masks 0) adj t = Inr (t1, b0')" by auto
  from hidden_stage_shape [OF s0] sz dims have t1: "nrows t1 = N" "ncols t1 = H" by simp_all
  from hidden_stage_total [OF a t1(1), of c1 b1 ?tr "masks 1"] t1 dims H tr
  obtain t2 b1' where s1: "hidden_stage c1 b1 ?tr (masks 1) adj t1 = Inr (t2, b1')" by auto
  from hidden_stage_shape [OF s1] sz dims have t2: "nrows t2 = N" "ncols t2 = H" by simp_all
  from hidden_stage_total [OF a t2(1), of c2 b2 ?tr "masks 2"] t2 dims H tr
  obtain t3 b2' where s2: "hidden_stage c2 b2 ?tr (masks 2) adj t2 = Inr (t3, b2')" by auto
  from hidden_stage_shape [OF s2] sz dims have t3: "nrows t3 = N" "ncols t3 = H" by simp_all
  from hidden_stage_total [OF a t3(1), of c3 b3 ?tr "masks 3"] t3 dims H tr
  obtain t4 b3' where s3: "hidden_stage c3 b3 ?tr (masks 3) adj t3 = Inr (t4, b3')" by auto
  from hidden_stage_shape [OF s3] sz dims have t4: "nrows t4 = N" "ncols t4 = H" by simp_all
  from GCNConv_forward_total [OF a t4(1), of "last_gcn m"] t4 dims
  obtain raw where l: "GCNConv_forward (last_gcn m) t4 adj = Inr raw" by auto
  have "\<exists>out m'. four_stage_forward m masks t adj = Inr (out, m')"
    unfolding four_stage_forward_def cs bs using s0 s1 s2 s3 l by simp
  then show ?thesis using forward_four_stage [OF len] by simp
qed

lemma demo_adj_over: "adj_over (data_adj_t demo_data) 4"
  by (simp add: adj_over_def demo_data_def)

text \<open>
  The flag \<open>return_embeds\<close> only decides whether the output of the last convolution goes
  through \<open>LogSoftmax\<close>: the call with the flag cleared returns the \<open>LogSoftmax\<close> of what
  the same call returns with the flag set.
\<close>

lemma forward_loop_return_embeds:
  "forward_loop (m\<lparr> return_embeds := b \<rparr>) masks adj is (t, bs) = forward_loop m masks adj is (t, bs)"
  by (induction "is" arbitrary: t bs) (auto split: sum.splits prod.splits simp: Let_def)

lemma forward_return_embeds:
  assumes "forward (m\<lparr> return_embeds := True \<rparr>) masks t adj = Inr (e, m')"
  shows "forward (m\<lparr> return_embeds := False \<rparr>) masks t adj =
           Inr (LogSoftmax_forward e, m'\<lparr> return_embeds := False \<rparr>)"
  using assms
  by (auto simp: forward_def forward_loop_return_embeds split: sum.splits prod.splits)

text \<open>
  C1. For a model laid out for \<open>F\<close> features, width \<open>H\<close> and \<open>C\<close> classes, a well-formed
  \<open>N\<close> by \<open>F\<close> feature tensor and an adjacency over \<open>N\<close> nodes, every output of \<open>forward\<close>
  is a well-formed tensor of \<open>N\<close> rows and \<open>C\<close> columns, whatever \<open>H\<close> is. \<open>forward\<close> does
  return an output when the width is positive and the call is not a training-mode call
  on a single node, which batch normalisation refuses.
\<close>

theorem forward_output_shape:
  assumes "has_dims m F H C" "wf_tensor t" "nrows t = N" "ncols t = F" "adj_over adj N"
  shows "(\<forall>out m'. forward m masks t adj = Inr (out, m') \<longrightarrow>
            wf_tensor out \<and> nrows out = N \<and> ncols out = C) \<and>
         (0 < H \<and> (training m \<longrightarrow> N \<noteq> 1) \<longrightarrow> (\<exists>out m'. forward m masks t adj = Inr (out, m')))"
proof -
  have "wf_tensor out \<and> nrows out = N \<and> ncols out = C"
    if "forward m masks t adj = Inr (out, m')" for out m'
    using forward_shape_partial [OF that] assms(1,5) by (simp add: has_dims_def adj_over_def)
  moreover have "\<exists>out m'. forward m masks t adj = Inr (out, m')"
    if "0 < H" "training m \<longrightarrow> N \<noteq> 1"
    using forward_total [OF assms(1,3,4,5) that] .
  ultimately show ?thesis by blast
qed

theorem forward_output_shape_witness:
  "has_dims demo_gcn 2 3 2 \<and> wf_tensor (data_x demo_data) \<and> nrows (data_x demo_data) = 4 \<and>
   ncols (data_x demo_data) = 2 \<and> adj_over (data_adj_t demo_data) 4 \<and>
   (\<exists>out m'. forward demo_gcn keep_all (data_x demo_data) (data_adj_t demo_data) = Inr (out, m') \<and>
      wf_tensor out \<and> nrows out = 4 \<and> ncols out = 2)"
proof -
  have d: "has_dims demo_gcn 2 3 2" unfolding demo_gcn_def by (rule has_dims_GCN_init)
  have w: "wf_tensor (data_x demo_data)" by (simp add: wf_tensor_def demo_data_def)
  have r: "nrows (data_x demo_data) = 4" by (simp add: demo_data_def)
  have c: "ncols (data_x demo_data) = 2" by (simp add: demo_data_def)
  show ?thesis
    using forward_output_shape [OF d w r c demo_adj_over, of keep_all] d w r c demo_adj_over
    by auto
qed

text \<open>
  C7. For a model with four convolutions and four batch-norm layers, which is what
  \<open>__init__\<close> builds, \<open>forward\<close> is the pipeline of four hidden stages (convolution,
  batch normalisation, ReLU, dropout at rate one half), then the output convolution,
  whose output width is the class count, then the optional log-softmax. Outside
  training mode the dropout of a stage returns its input.
\<close>

theorem forward_is_four_stages:
  "(length (gcnlayers m) = 4 \<and> length (bns m) = 4 \<longrightarrow>
      forward m masks t adj = four_stage_forward m masks t adj)
   \<and> length (gcnlayers (GCN_init F H C re init)) = 4
   \<and> length (bns (GCN_init F H C re init)) = 4
   \<and> conv_out (last_gcn (GCN_init F H C re init)) = C
   \<and> dropout_half False keep t = t"
  using forward_four_stage [of m masks t adj]
  by (simp add: GCN_init_def GCNConv_def dropout_half_def)

theorem forward_is_four_stages_witness:
  "length (gcnlayers demo_gcn) = 4 \<and> length (bns demo_gcn) = 4 \<and>
   forward demo_gcn keep_all (data_x demo_data) (data_adj_t demo_data) =
     four_stage_forward demo_gcn keep_all (data_x demo_data) (data_adj_t demo_data)"
  using forward_is_four_stages [of demo_gcn keep_all "data_x demo_data" "data_adj_t demo_data"
      2 3 2 False zero_init]
  by (simp add: demo_gcn_def)

text \<open>
  C9. Outside training mode the result of \<open>forward\<close> does not depend on the dropout draws,
  and a call leaves the model as it was; so a second call on the same features and
  adjacency, with whatever draws, returns the same output as the first. \<open>test\<close> switches
  to evaluation mode before its forward pass, so its result does not depend on the
  draws either, whatever mode the model was in.
\<close>

theorem eval_forward_deterministic:
  assumes "\<not> training m"
  shows "forward m masks2 t adj = forward m masks1 t adj \<and>
         (\<forall>out m1. forward m masks1 t adj = Inr (out, m1) \<longrightarrow>
              m1 = m \<and> forward m1 masks2 t adj = Inr (out, m1)) \<and>
         test m0 d split evaluator save masks2 = test m0 d split evaluator save masks1"
  using forward_eval_masks [OF assms, of masks2 t adj masks1] forward_eval_model [OF assms]
    test_masks [of m0 d split evaluator save masks2 masks1]
  by metis

theorem eval_forward_deterministic_witness:
  "\<not> training (GCN_eval demo_gcn) \<and>
   forward (GCN_eval demo_gcn) keep_none (data_x demo_data) (data_adj_t demo_data) =
     forward (GCN_eval demo_gcn) keep_all (data_x demo_data) (data_adj_t demo_data)"
proof -
  have e: "\<not> training (GCN_eval demo_gcn)" by (simp add: GCN_eval_def)
  show ?thesis
    using eval_forward_deterministic [OF e, of keep_none "data_x demo_data"
        "data_adj_t demo_data" keep_all] e
    by blast
qed

subsection \<open>Properties of the training loop\<close>

lemma epoch_step_Inr:
  assumes "epoch_step fit tst e st = Inr st'"
  obtains m1 o1 loss m2 ta va te where
    "fit (model st) (optimizer st) = Inr (m1, o1, loss)"
    "tst m1 = Inr (m2, ta, va, te)"
    "st' = \<lparr> model = m2, optimizer = o1,
            best_model = (if va > best_valid_acc st then Some m2 else best_model st),
            best_valid_acc = (if va > best_valid_acc st then va else best_valid_acc st),
            printed = printed st @ [\<lparr> line_epoch = e, line_loss = loss, line_train = ta,
                            line_valid = va, line_test = te \<rparr>] \<rparr>"
  using assms unfolding epoch_step_def
  by (auto split: sum.splits prod.splits if_splits simp: Let_def)

lemma epoch_step_Inl:
  assumes "epoch_step fit tst e st = Inl err"
  shows "(\<exists>m opt. fit m opt = Inl err) \<or> (\<exists>m. tst m = Inl err)"
  using assms unfolding epoch_step_def
  by (auto split: sum.splits prod.splits if_splits simp: Let_def)

lemma run_epochs_printed:
  "run_epochs fit tst es st = Inr fin \<Longrightarrow>
   \<exists>ls. printed fin = printed st @ ls \<and> map line_epoch ls = es"
proof (induction es arbitrary: st)
  case Nil
  then show ?case by simp
next
  case (Cons e es)
  from Cons.prems obtain st' where s: "epoch_step fit tst e st = Inr st'"
    and r: "run_epochs fit tst es st' = Inr fin"
    by (auto split: sum.splits)
  from Cons.IH [OF r] obtain ls where ls: "printed fin = printed st' @ ls" "map line_epoch ls = es"
    by blast
  from s obtain l where "printed st' = printed st @ [l]" "line_epoch l = e"
    by (elim epoch_step_Inr) simp
  with ls show ?case by simp
qed

lemma run_epochs_Inl:
  "run_epochs fit tst es st = Inl err \<Longrightarrow> (\<exists>m opt. fit m opt = Inl err) \<or> (\<exists>m. tst m = Inl err)"
proof (induction es arbitrary: st)
  case Nil
  then show ?case by simp
next
  case (Cons e es)
  then show ?case
    by (auto split: sum.splits dest: epoch_step_Inl)
qed

lemma run_epochs_unset:
  "run_epochs fit tst es st = Inr fin \<Longrightarrow> best_model st = None \<Longrightarrow> best_valid_acc st = 0 \<Longrightarrow>
   \<forall>l \<in> set (drop (length (printed st)) (printed fin)). line_valid l \<le> 0 \<Longrightarrow>
   best_model fin = None \<and> best_valid_acc fin = 0"
proof (induction es arbitrary: st)
  case Nil
  then show ?case by simp
next
  case (Cons e es)
  from Cons.prems(1) obtain st' where s: "epoch_step fit tst e st = Inr st'"
    and r: "run_epochs fit tst es st' = Inr fin"
    by (auto split: sum.splits)
  from run_epochs_printed [OF r] obtain ls where ls: "printed fin = printed st' @ ls"
    by blast
  from s obtain m2 o1 loss ta va te where
    st': "st' = \<lparr> model = m2, optimizer = o1,
            best_model = (if va > best_valid_acc st then Some m2 else best_model st),
            best_valid_acc = (if va > best_valid_acc st then va else best_valid_acc st),
            printed = printed st @ [\<lparr> line_epoch = e, line_loss = loss, line_train = ta,
                            line_valid = va, line_test = te \<rparr>] \<rparr>"
    by (elim epoch_step_Inr)
  have "va \<le> 0" using Cons.prems(4) ls st' by simp
  with st' Cons.prems(2,3) have b: "best_model st' = None" "best_valid_acc st' = 0" by simp_all
  have "\<forall>l \<in> set (drop (length (printed st')) (printed fin)). line_valid l \<le> 0"
    using Cons.prems(4) ls st' by simp
  from Cons.IH [OF r b this] show ?case .
qed

lemma demo_run:
  "training_loop demo_fit demo_test demo_args 0 0 =
     Inr \<lparr>model = 3, optimizer = 3, best_model = Some 2, best_valid_acc = 1 / 2,
        printed =
          [\<lparr>line_epoch = 1, line_loss = 1, line_train = 0, line_valid = 1 / 4, line_test = 0\<rparr>,
           \<lparr>line_epoch = 2, line_loss = 1 / 2, line_train = 0, line_valid = 1 / 2, line_test = 0\<rparr>,
           \<lparr>line_epoch = 3, line_loss = 1 / 3, line_train = 0, line_valid = 1 / 4, line_test = 0\<rparr>]\<rparr>"
  by (simp add: training_loop_def initial_state_def epoch_step_def demo_fit_def demo_test_def
      demo_args_def upt_rec)

lemma demo_run_zero:
  "training_loop demo_fit demo_test_zero demo_args 0 0 =
     Inr \<lparr>model = 3, optimizer = 3, best_model = None, best_valid_acc = 0,
        printed =
          [\<lparr>line_epoch = 1, line_loss = 1, line_train = 1 / 2, line_valid = 0, line_test = 1 / 2\<rparr>,
           \<lparr>line_epoch = 2, line_loss = 1 / 2, line_train = 1 / 2, line_valid = 0, line_test = 1 / 2\<rparr>,
           \<lparr>line_epoch = 3, line_loss = 1 / 3, line_train = 1 / 2, line_valid = 0, line_test = 1 / 2\<rparr>]\<rparr>"
  by (simp add: training_loop_def initial_state_def epoch_step_def demo_fit_def
      demo_test_zero_def demo_args_def upt_rec)

lemma epoch_step_best:
  assumes "epoch_step fit tst e st = Inr st'"
  shows "\<exists>l. printed st' = printed st @ [l] \<and> line_epoch l = e \<and>
             best_valid_acc st' = max (line_valid l) (best_valid_acc st) \<and>
             (line_valid l \<le> best_valid_acc st \<longrightarrow> best_model st' = best_model st) \<and>
             (best_valid_acc st < line_valid l \<longrightarrow> best_model st' = Some (model st'))"
  using assms by (elim epoch_step_Inr) (auto simp: max_def)

lemma run_epochs_trace:
  "run_epochs fit tst es st = Inr fin \<Longrightarrow>
   \<exists>sts. length sts = length es + 1 \<and> sts ! 0 = st \<and> sts ! length es = fin \<and>
         (\<forall>i < length es. epoch_step fit tst (es ! i) (sts ! i) = Inr (sts ! Suc i))"
proof (induction es arbitrary: st)
  case Nil
  then show ?case by (intro exI [of _ "[st]"]) simp
next
  case (Cons e es)
  from Cons.prems obtain st' where s: "epoch_step fit tst e st = Inr st'"
    and r: "run_epochs fit tst es st' = Inr fin"
    by (auto split: sum.splits)
  from Cons.IH [OF r] obtain sts where sts: "length sts = length es + 1" "sts ! 0 = st'"
    "sts ! length es = fin"
    "\<forall>i < length es. epoch_step fit tst (es ! i) (sts ! i) = Inr (sts ! Suc i)"
    by blast
  have "\<forall>i < length (e # es). epoch_step fit tst ((e # es) ! i) ((st # sts) ! i)
          = Inr ((st # sts) ! Suc i)"
  proof (intro allI impI)
    fix i assume i: "i < length (e # es)"
    show "epoch_step fit tst ((e # es) ! i) ((st # sts) ! i) = Inr ((st # sts) ! Suc i)"
    proof (cases i)
      case 0
      then show ?thesis using s sts(2) by simp
    next
      case (Suc j)
      then show ?thesis using i sts(4) by simp
    qed
  qed
  then show ?case using sts(1,3) by (intro exI [of _ "st # sts"]) simp
qed

lemma run_epochs_trace_Inl:
  "run_epochs fit tst es st = Inl err \<Longrightarrow>
   \<exists>sts j. j < length es \<and> length sts = j + 1 \<and> sts ! 0 = st \<and>
         (\<forall>i < j. epoch_step fit tst (es ! i) (sts ! i) = Inr (sts ! Suc i)) \<and>
         epoch_step fit tst (es ! j) (sts ! j) = Inl err"
proof (induction es arbitrary: st)
  case Nil
  then show ?case by simp
next
  case (Cons e es)
  show ?case
  proof (cases "epoch_step fit tst e st")
    case (Inl e')
    with Cons.prems have "e' = err" by simp
    with Inl show ?thesis by (intro exI [of _ "[st]"] exI [of _ 0]) simp
  next
    case (Inr st')
    with Cons.prems have r: "run_epochs fit tst es st' = Inl err" by simp
    from Cons.IH [OF r] obtain sts j where sts: "j < length es" "length sts = j + 1"
      "sts ! 0 = st'" "\<forall>i < j. epoch_step fit tst (es ! i) (sts ! i) = Inr (sts ! Suc i)"
      "epoch_step fit tst (es ! j) (sts ! j) = Inl err"
      by blast
    have "\<forall>i < Suc j. epoch_step fit tst ((e # es) ! i) ((st # sts) ! i)
            = Inr ((st # sts) ! Suc i)"
    proof (intro allI impI)
      fix i assume i: "i < Suc j"
      show "epoch_step fit tst ((e # es) ! i) ((st # sts) ! i) = Inr ((st # sts) ! Suc i)"
      proof (cases i)
        case 0
        then show ?thesis using Inr sts(3) by simp
      next
        case (Suc k)
        then show ?thesis using i sts(4) by simp
      qed
    qed
    then show ?thesis using sts(1,2,5)
      by (intro exI [of _ "st # sts"] exI [of _ "Suc j"]) simp
  qed
qed

lemma run_epochs_best:
  "run_epochs fit tst es st = Inr fin \<Longrightarrow>
   \<exists>ls. printed fin = printed st @ ls \<and>
        best_valid_acc fin = fold max (map line_valid ls) (best_valid_acc st) \<and>
        ((\<forall>l \<in> set ls. line_valid l \<le> best_valid_acc st) \<longrightarrow> best_model fin = best_model st) \<and>
        ((\<exists>l \<in> set ls. best_valid_acc st < line_valid l) \<longrightarrow> best_model fin \<noteq> None)"
proof (induction es arbitrary: st)
  case Nil
  then show ?case by simp
next
  case (Cons e es)
  from Cons.prems obtain st' where s: "epoch_step fit tst e st = Inr st'"
    and r: "run_epochs fit tst es st' = Inr fin"
    by (auto split: sum.splits)
  from epoch_step_best [OF s] obtain l where l: "printed st' = printed st @ [l]"
    "best_valid_acc st' = max (line_valid l) (best_valid_acc st)"
    "line_valid l \<le> best_valid_acc st \<longrightarrow> best_model st' = best_model st"
    "best_valid_acc st < line_valid l \<longrightarrow> best_model st' = Some (model st')"
    by blast
  from Cons.IH [OF r] obtain ls where ls: "printed fin = printed st' @ ls"
    "best_valid_acc fin = fold max (map line_valid ls) (best_valid_acc st')"
    "(\<forall>k \<in> set ls. line_valid k \<le> best_valid_acc st') \<longrightarrow> best_model fin = best_model st'"
    "(\<exists>k \<in> set ls. best_valid_acc st' < line_valid k) \<longrightarrow> best_model fin \<noteq> None"
    by blast
  have p: "printed fin = printed st @ (l # ls)" using l(1) ls(1) by simp
  have b: "best_valid_acc fin = fold max (map line_valid (l # ls)) (best_valid_acc st)"
    using l(2) ls(2) by simp
  have same: "best_model fin = best_model st"
    if "\<forall>k \<in> set (l # ls). line_valid k \<le> best_valid_acc st"
  proof -
    from that have le: "line_valid l \<le> best_valid_acc st" by simp
    with l(2) have "best_valid_acc st' = best_valid_acc st" by simp
    with that ls(3) l(3) le show ?thesis by simp
  qed
  have some: "best_model fin \<noteq> None"
    if "\<exists>k \<in> set (l # ls). best_valid_acc st < line_valid k"
  proof (cases "\<exists>k \<in> set ls. best_valid_acc st' < line_valid k")
    case True
    with ls(4) show ?thesis by simp
  next
    case False
    then have all: "\<forall>k \<in> set ls. line_valid k \<le> best_valid_acc st'" by (simp add: not_less)
    with ls(3) have eq: "best_model fin = best_model st'" by simp
    have "best_valid_acc st < line_valid l"
    proof (rule ccontr)
      assume n: "\<not> best_valid_acc st < line_valid l"
      with l(2) have "best_valid_acc st' = best_valid_acc st" by simp
      with all that n show False by (auto simp: not_less)
    qed
    with l(4) eq show ?thesis by simp
  qed
  from p b same some show ?case by blast
qed

text \<open>
  C8. One iteration whose library calls succeed replaces the snapshot by the current
  model and raises the best accuracy when the validation accuracy is strictly above the
  best so far, and leaves both as they were otherwise. The whole loop is the chain of
  these iterations: a run that ends normally went through one state per epoch, from the
  state with best accuracy 0 and no snapshot, each got from the one before by the
  iteration for epochs 1 to \<open>epochs\<close> in turn. Its last state is the result, with one
  printed line per epoch, the best accuracy the largest of 0 and the printed validation
  accuracies, and a snapshot exactly when some validation accuracy was above 0. The loop
  has no early exit: a run that ends before the last epoch did so in an iteration whose
  update or whose evaluation raised that error. The configured budget is 200 epochs.
\<close>

theorem checkpoint_on_strict_improvement:
  "(fit (model st) (optimizer st) = Inr (m1, o1, loss) \<longrightarrow> tst m1 = Inr (m2, ta, va, te) \<longrightarrow>
     (\<exists>st'. epoch_step fit tst e st = Inr st' \<and> model st' = m2 \<and>
        (best_valid_acc st < va \<longrightarrow> best_model st' = Some m2 \<and> best_valid_acc st' = va) \<and>
        (\<not> best_valid_acc st < va \<longrightarrow>
           best_model st' = best_model st \<and> best_valid_acc st' = best_valid_acc st)))
   \<and> (case training_loop fit tst a m opt of
        Inr fin \<Rightarrow>
          (\<exists>sts. length sts = epochs a + 1 \<and>
             sts ! 0 = \<lparr> model = m, optimizer = opt, best_model = None, best_valid_acc = 0,
                        printed = [] \<rparr> \<and>
             sts ! epochs a = fin \<and>
             (\<forall>i < epochs a. epoch_step fit tst (Suc i) (sts ! i) = Inr (sts ! Suc i))) \<and>
          map line_epoch (printed fin) = [1 ..< 1 + epochs a] \<and>
          best_valid_acc fin = fold max (map line_valid (printed fin)) 0 \<and>
          (best_model fin = None \<longleftrightarrow> (\<forall>l \<in> set (printed fin). line_valid l \<le> 0))
      | Inl err \<Rightarrow>
          (\<exists>sts j. j < epochs a \<and> length sts = j + 1 \<and>
             sts ! 0 = \<lparr> model = m, optimizer = opt, best_model = None, best_valid_acc = 0,
                        printed = [] \<rparr> \<and>
             (\<forall>i < j. epoch_step fit tst (Suc i) (sts ! i) = Inr (sts ! Suc i)) \<and>
             (fit (model (sts ! j)) (optimizer (sts ! j)) = Inl err \<or>
              (\<exists>m1 o1 loss. fit (model (sts ! j)) (optimizer (sts ! j)) = Inr (m1, o1, loss) \<and>
                 tst m1 = Inl err))))
   \<and> epochs args = 200"
proof (intro conjI impI)
  assume "fit (model st) (optimizer st) = Inr (m1, o1, loss)" "tst m1 = Inr (m2, ta, va, te)"
  then show "\<exists>st'. epoch_step fit tst e st = Inr st' \<and> model st' = m2 \<and>
        (best_valid_acc st < va \<longrightarrow> best_model st' = Some m2 \<and> best_valid_acc st' = va) \<and>
        (\<not> best_valid_acc st < va \<longrightarrow>
           best_model st' = best_model st \<and> best_valid_acc st' = best_valid_acc st)"
    by (simp add: epoch_step_def Let_def)
next
  define es where "es = [1 ..< 1 + epochs a]"
  let ?st0 = "\<lparr> model = m, optimizer = opt, best_model = None, best_valid_acc = 0,
                 printed = [] :: epoch_line list \<rparr>"
  have run: "training_loop fit tst a m opt = run_epochs fit tst es ?st0"
    by (simp add: training_loop_def initial_state_def es_def)
  have len: "length es = epochs a" by (simp add: es_def)
  have nth: "es ! i = Suc i" if "i < epochs a" for i
  proof -
    have "1 + i < 1 + epochs a" using that by simp
    then have "[1 ..< 1 + epochs a] ! i = 1 + i" by (rule nth_upt)
    then show ?thesis by (simp add: es_def)
  qed
  show "case training_loop fit tst a m opt of
        Inr fin \<Rightarrow>
          (\<exists>sts. length sts = epochs a + 1 \<and> sts ! 0 = ?st0 \<and> sts ! epochs a = fin \<and>
             (\<forall>i < epochs a. epoch_step fit tst (Suc i) (sts ! i) = Inr (sts ! Suc i))) \<and>
          map line_epoch (printed fin) = [1 ..< 1 + epochs a] \<and>
          best_valid_acc fin = fold max (map line_valid (printed fin)) 0 \<and>
          (best_model fin = None \<longleftrightarrow> (\<forall>l \<in> set (printed fin). line_valid l \<le> 0))
      | Inl err \<Rightarrow>
          (\<exists>sts j. j < epochs a \<and> length sts = j + 1 \<and> sts ! 0 = ?st0 \<and>
             (\<forall>i < j. epoch_step fit tst (Suc i) (sts ! i) = Inr (sts ! Suc i)) \<and>
             (fit (model (sts ! j)) (optimizer (sts ! j)) = Inl err \<or>
              (\<exists>m1 o1 loss. fit (model (sts ! j)) (optimizer (sts ! j)) = Inr (m1, o1, loss) \<and>
                 tst m1 = Inl err)))"
  proof (cases "training_loop fit tst a m opt")
    case (Inl err)
    with run have r: "run_epochs fit tst es ?st0 = Inl err" by simp
    from run_epochs_trace_Inl [OF r] obtain sts j where sts: "j < length es"
      "length sts = j + 1" "sts ! 0 = ?st0"
      "\<forall>i < j. epoch_step fit tst (es ! i) (sts ! i) = Inr (sts ! Suc i)"
      "epoch_step fit tst (es ! j) (sts ! j) = Inl err"
      by blast
    have j: "j < epochs a" using sts(1) len by simp
    have tr: "\<forall>i < j. epoch_step fit tst (Suc i) (sts ! i) = Inr (sts ! Suc i)"
      using j sts(4) nth by auto
    have "fit (model (sts ! j)) (optimizer (sts ! j)) = Inl err \<or>
          (\<exists>m1 o1 loss. fit (model (sts ! j)) (optimizer (sts ! j)) = Inr (m1, o1, loss) \<and>
             tst m1 = Inl err)"
      using sts(5) unfolding epoch_step_def
      by (auto split: sum.splits prod.splits simp: Let_def)
    with j sts(2,3) tr have "\<exists>sts j. j < epochs a \<and> length sts = j + 1 \<and> sts ! 0 = ?st0 \<and>
             (\<forall>i < j. epoch_step fit tst (Suc i) (sts ! i) = Inr (sts ! Suc i)) \<and>
             (fit (model (sts ! j)) (optimizer (sts ! j)) = Inl err \<or>
              (\<exists>m1 o1 loss. fit (model (sts ! j)) (optimizer (sts ! j)) = Inr (m1, o1, loss) \<and>
                 tst m1 = Inl err))"
      by blast
    then show ?thesis unfolding Inl by simp
  next
    case (Inr fin)
    with run have r: "run_epochs fit tst es ?st0 = Inr fin" by simp
    from run_epochs_trace [OF r] obtain sts where sts: "length sts = length es + 1"
      "sts ! 0 = ?st0" "sts ! length es = fin"
      "\<forall>i < length es. epoch_step fit tst (es ! i) (sts ! i) = Inr (sts ! Suc i)"
      by blast
    have tr: "\<forall>i < epochs a. epoch_step fit tst (Suc i) (sts ! i) = Inr (sts ! Suc i)"
      using sts(4) nth len by auto
    have t: "\<exists>sts. length sts = epochs a + 1 \<and> sts ! 0 = ?st0 \<and> sts ! epochs a = fin \<and>
             (\<forall>i < epochs a. epoch_step fit tst (Suc i) (sts ! i) = Inr (sts ! Suc i))"
      using sts(1-3) tr len by auto
    from run_epochs_printed [OF r] have pe: "map line_epoch (printed fin) = [1 ..< 1 + epochs a]"
      by (simp add: es_def)
    from run_epochs_best [OF r] have b: "best_valid_acc fin = fold max (map line_valid (printed fin)) 0"
      and n1: "(\<forall>l \<in> set (printed fin). line_valid l \<le> 0) \<longrightarrow> best_model fin = None"
      and n2: "(\<exists>l \<in> set (printed fin). 0 < line_valid l) \<longrightarrow> best_model fin \<noteq> None"
      by auto
    have "best_model fin = None \<longleftrightarrow> (\<forall>l \<in> set (printed fin). line_valid l \<le> 0)"
      using n1 n2 by (auto simp: not_le)
    with t pe b show ?thesis unfolding Inr by simp
  qed
qed (simp add: args_def)

theorem checkpoint_on_strict_improvement_witness:
  "(\<exists>st'. epoch_step demo_fit demo_test 1 (initial_state 0 0) = Inr st' \<and> model st' = 1 \<and>
      best_model st' = Some 1 \<and> best_valid_acc st' = 1 / 4)
   \<and> (\<exists>fin. training_loop demo_fit demo_test demo_args 0 0 = Inr fin
        \<and> map line_epoch (printed fin) = [1, 2, 3]
        \<and> best_valid_acc fin = fold max (map line_valid (printed fin)) 0
        \<and> best_valid_acc fin = 1 / 2 \<and> best_model fin = Some 2)"
  using checkpoint_on_strict_improvement [of demo_fit "initial_state 0 0" 1 1 1 demo_test 1 0
      "1 / 4" 0 1 demo_args 0 0]
  by (simp add: demo_run demo_fit_def demo_test_def initial_state_def)

text \<open>
  C10. When the run ends normally and no printed line shows a validation accuracy above
  zero, the snapshot is still unset at the end, although every epoch from 1 to \<open>epochs\<close>
  has run.
\<close>

theorem best_model_stays_unset:
  "training_loop fit tst a m opt = Inr fin \<Longrightarrow> \<forall>l \<in> set (printed fin). line_valid l \<le> 0 \<Longrightarrow>
   best_model fin = None \<and> map line_epoch (printed fin) = [1 ..< 1 + epochs a]"
  unfolding training_loop_def
  using run_epochs_unset [of fit tst "[1 ..< 1 + epochs a]" "initial_state m opt" fin]
    run_epochs_printed [of fit tst "[1 ..< 1 + epochs a]" "initial_state m opt" fin]
  by (auto simp: initial_state_def)

theorem best_model_stays_unset_witness:
  "\<exists>fin. training_loop demo_fit demo_test_zero demo_args 0 0 = Inr fin \<and>
     (\<forall>l \<in> set (printed fin). line_valid l \<le> 0) \<and>
     best_model fin = None \<and> map line_epoch (printed fin) = [1, 2, 3]"
  using best_model_stays_unset [of demo_fit demo_test_zero demo_args 0 0]
  by (simp add: demo_run_zero)

end
